(* ===== verification/Iron_Prelude.thy ===== *)
theory Iron_Prelude
  imports Main "HOL-Library.Word"
begin

text \<open>
  Shared vocabulary of the development: the machine integers of the Rust sources, byte
  strings, HTTP responses as the handlers build them, the outcome of code that may panic,
  and the list, option and word facts the component theories rely on.

  A Rust \<^verbatim>\<open>str\<close> is its UTF-8 byte sequence, held as a \<^typ>\<open>string\<close>: an Isabelle \<^typ>\<open>char\<close>
  is one byte, so \<^const>\<open>length\<close> is \<^verbatim>\<open>len()\<close> and \<open>as_bytes\<close> below is \<^verbatim>\<open>as_bytes()\<close>.
  Fixed-size arrays such as \<^verbatim>\<open>[u8; 32]\<close> are byte lists; their length is stated where a
  property needs it.
\<close>

unbundle bit_operations_syntax

type_synonym u8 = "8 word"
type_synonym u16 = "16 word"
type_synonym u32 = "32 word"
type_synonym u64 = "64 word"
type_synonym bytes = "u8 list"

text \<open>Facts about the concrete tables and byte classes, and the bit-level facts of the codecs.\<close>

named_theorems table_simps
named_theorems store_simps

definition as_bytes :: "string \<Rightarrow> bytes" where
  "as_bytes s = map of_char s"

subsection \<open>Status codes and responses\<close>

abbreviation OK :: nat where "OK \<equiv> 200"
abbreviation BAD_REQUEST :: nat where "BAD_REQUEST \<equiv> 400"
abbreviation UNAUTHORIZED :: nat where "UNAUTHORIZED \<equiv> 401"
abbreviation FORBIDDEN :: nat where "FORBIDDEN \<equiv> 403"
abbreviation CONFLICT :: nat where "CONFLICT \<equiv> 409"
abbreviation TOO_MANY_REQUESTS :: nat where "TOO_MANY_REQUESTS \<equiv> 429"
abbreviation BAD_GATEWAY :: nat where "BAD_GATEWAY \<equiv> 502"
abbreviation SERVICE_UNAVAILABLE :: nat where "SERVICE_UNAVAILABLE \<equiv> 503"

text \<open>
  A body is the JSON object \<^verbatim>\<open>{"error": msg}\<close> or the handler's own success value.
\<close>

datatype 'a body = Error_Body string | Json_Body 'a

record 'a response =
  status :: nat
  body :: "'a body"

definition err :: "nat \<Rightarrow> string \<Rightarrow> 'a response" where
  "err code msg = \<lparr>status = code, body = Error_Body msg\<rparr>"

definition ok_json :: "'a \<Rightarrow> 'a response" where
  "ok_json v = \<lparr>status = OK, body = Json_Body v\<rparr>"

lemma err_sel [simp]:
  "status (err c m) = c" "body (err c m) = Error_Body m"
  by (simp_all add: err_def)

lemma ok_json_sel [simp]:
  "status (ok_json v) = OK" "body (ok_json v) = Json_Body v"
  by (simp_all add: ok_json_def)

lemma err_neq_ok_json [simp]:
  "err c m \<noteq> ok_json v" "ok_json v \<noteq> err c m"
  by (simp_all add: err_def ok_json_def)

lemma err_inject [simp]: "err c m = err c' m' \<longleftrightarrow> c = c' \<and> m = m'"
  by (auto simp: err_def)

lemma ok_json_inject [simp]: "ok_json v = ok_json v' \<longleftrightarrow> v = v'"
  by (auto simp: ok_json_def)

text \<open>Code that calls \<^verbatim>\<open>expect\<close> either panics with its message or returns.\<close>

datatype 'a outcome = Panic string | Return 'a

subsection \<open>Collecting fallible results\<close>

text \<open>
  \<^verbatim>\<open>iter().map(f).collect::<Option<Vec<_>>>()\<close> (and the \<^verbatim>\<open>Result\<close> form with its error
  dropped): the first failure makes the whole collection fail.
\<close>

fun collect_opt :: "('a \<Rightarrow> 'b option) \<Rightarrow> 'a list \<Rightarrow> 'b list option" where
  "collect_opt f [] = Some []"
| "collect_opt f (x # xs) =
     (case f x of None \<Rightarrow> None
      | Some y \<Rightarrow> (case collect_opt f xs of None \<Rightarrow> None | Some ys \<Rightarrow> Some (y # ys)))"

lemma collect_opt_Some_iff:
  "collect_opt f xs = Some ys \<longleftrightarrow> list_all2 (\<lambda>x y. f x = Some y) xs ys"
proof (induction xs arbitrary: ys)
  case (Cons x xs)
  then show ?case
    by (cases "f x"; cases "collect_opt f xs") (auto simp: list_all2_Cons1)
qed auto

lemma collect_opt_length: "collect_opt f xs = Some ys \<Longrightarrow> length ys = length xs"
  by (simp add: collect_opt_Some_iff list_all2_lengthD)

lemma collect_opt_map_Some [simp]:
  "(\<And>x. x \<in> set xs \<Longrightarrow> f (g x) = Some (h x)) \<Longrightarrow> collect_opt f (map g xs) = Some (map h xs)"
  by (induction xs) auto

lemma collect_opt_cong [fundef_cong]:
  "xs = ys \<Longrightarrow> (\<And>x. x \<in> set ys \<Longrightarrow> f x = g x) \<Longrightarrow> collect_opt f xs = collect_opt g ys"
  by (induction xs arbitrary: ys) (auto split: option.splits)

lemma all_nat_0_Suc: "(\<forall>i. P i) \<longleftrightarrow> P 0 \<and> (\<forall>i. P (Suc i))"
  by (metis not0_implies_Suc)

subsection \<open>Bytes\<close>

lemma of_char_byte_inject [simp]: "(of_char c :: u8) = of_char d \<longleftrightarrow> c = d"
proof
  assume eq: "(of_char c :: u8) = of_char d"
  have "(of_nat (of_char c) :: u8) = of_nat (of_char d)"
    using eq by (simp add: of_nat_of_char)
  then have "(of_char c :: nat) = of_char d"
    by (simp add: word_of_nat_eq_iff take_bit_eq_mod)
  then show "c = d" by simp
qed simp

lemma as_bytes_simps [simp]:
  "as_bytes [] = []" "as_bytes (c # s) = of_char c # as_bytes s"
  "as_bytes (s @ t) = as_bytes s @ as_bytes t" "length (as_bytes s) = length s"
  by (simp_all add: as_bytes_def)

lemma as_bytes_inject [simp]: "as_bytes s = as_bytes t \<longleftrightarrow> s = t"
  by (simp add: as_bytes_def inj_map_eq_map inj_def)

text \<open>A property of the bytes between two bounds is a finite check too.\<close>

lemma byte_range:
  assumes "lo \<le> b" "b \<le> (hi :: u8)" "list_all (\<lambda>n. P (word_of_nat n)) [unat lo..<Suc (unat hi)]"
  shows "P b"
proof -
  have "unat lo \<le> unat b" "unat b < Suc (unat hi)"
    using assms by (simp_all add: word_le_nat_alt)
  then have "unat b \<in> set [unat lo..<Suc (unat hi)]" by auto
  with assms(3) have "P (word_of_nat (unat b))"
    by (simp only: list_all_iff)
  then show ?thesis by simp
qed

subsection \<open>Words\<close>

lemma unat_take_bit_less: "unat (take_bit k w) < 2 ^ k"
  by (simp add: unsigned_take_bit_eq)

lemma take_bit_small: "unat w < 2 ^ k \<Longrightarrow> take_bit k w = w"
  by (simp add: word_unat_eq_iff unsigned_take_bit_eq take_bit_nat_eq_self)

lemma unat_drop_bit_less: "unat (drop_bit k (w :: 'a::len word)) < 2 ^ (LENGTH('a) - k)"
  by (metis (no_types) unat_take_bit_less take_bit_length_eq drop_bit_take_bit diff_le_self)

text \<open>Two bytes are equal when their eight bits are.\<close>

lemma u8_eqI:
  fixes a b :: u8
  assumes "bit a 0 = bit b 0" "bit a 1 = bit b 1" "bit a 2 = bit b 2" "bit a 3 = bit b 3"
    "bit a 4 = bit b 4" "bit a 5 = bit b 5" "bit a 6 = bit b 6" "bit a 7 = bit b 7"
  shows "a = b"
proof (rule bit_word_eqI)
  fix n assume "n < LENGTH(8)"
  then have "n \<in> {0, 1, 2, 3, 4, 5, 6, 7}" by auto
  then show "bit a n = bit b n" using assms by auto
qed

lemma bit_u8_high: "8 \<le> n \<Longrightarrow> \<not> bit (b :: u8) n"
  using bit_imp_le_length by fastforce

subsection \<open>Reachable states and invariants\<close>

text \<open>The states a step relation reaches from a start state.\<close>

inductive reachable :: "'s \<Rightarrow> ('s \<Rightarrow> 's \<Rightarrow> bool) \<Rightarrow> 's \<Rightarrow> bool" for init step where
  reachable_init: "reachable init step init"
| reachable_step: "reachable init step s \<Longrightarrow> step s t \<Longrightarrow> reachable init step t"

lemma reachable_mono:
  "reachable init step s \<Longrightarrow> (\<And>s t. step s t \<Longrightarrow> step' s t) \<Longrightarrow> reachable init step' s"
  by (induction rule: reachable.induct) (auto intro: reachable.intros)

text \<open>A sequence of operations, each allowed in the state the previous ones left.\<close>

fun run_ok :: "('s \<Rightarrow> 'op \<Rightarrow> bool) \<Rightarrow> ('op \<Rightarrow> 's \<Rightarrow> 's) \<Rightarrow> 's \<Rightarrow> 'op list \<Rightarrow> bool" where
  "run_ok allowed exec s [] \<longleftrightarrow> True"
| "run_ok allowed exec s (op # ops) \<longleftrightarrow> allowed s op \<and> run_ok allowed exec (exec op s) ops"

text \<open>What a component with an inductive invariant promises.\<close>

locale invariant_system =
  fixes init :: "'s"
    and step :: "'s \<Rightarrow> 's \<Rightarrow> bool"
    and inv :: "'s \<Rightarrow> bool"
  assumes inv_init: "inv init"
    and inv_step: "inv s \<Longrightarrow> step s t \<Longrightarrow> inv t"
begin

lemma inv_reachable: "reachable init step s \<Longrightarrow> inv s"
  by (induction rule: reachable.induct) (auto intro: inv_init inv_step)

lemma inv_steps: "step\<^sup>*\<^sup>* s t \<Longrightarrow> inv s \<Longrightarrow> inv t"
  by (induction rule: rtranclp_induct) (auto intro: inv_step)

end

text \<open>A run of a labelled transition system: the labels it shows, in order.\<close>

inductive lts_run :: "('s \<Rightarrow> 'l \<Rightarrow> 's \<Rightarrow> bool) \<Rightarrow> 's \<Rightarrow> 'l list \<Rightarrow> 's \<Rightarrow> bool" for step where
  lts_run_Nil: "lts_run step s [] s"
| lts_run_Cons: "step s l t \<Longrightarrow> lts_run step t ls u \<Longrightarrow> lts_run step s (l # ls) u"

text \<open>
  A system that implements another: \<open>abs_state\<close> reads the abstract state off a concrete one, and each
  step is a step of the specification under the same label. Then every run of the implementation
  shows a sequence of labels that the specification can show.
\<close>

locale refined_system =
  fixes step :: "'s \<Rightarrow> 'l \<Rightarrow> 's \<Rightarrow> bool"
    and inv :: "'s \<Rightarrow> bool"
    and abs_state :: "'s \<Rightarrow> 'a"
    and abs_step :: "'a \<Rightarrow> 'l \<Rightarrow> 'a \<Rightarrow> bool"
  assumes step_inv: "inv s \<Longrightarrow> step s l t \<Longrightarrow> inv t"
    and simulated: "inv s \<Longrightarrow> step s l t \<Longrightarrow> abs_step (abs_state s) l (abs_state t)"
begin

lemma refines: "lts_run step s ls t \<Longrightarrow> inv s \<Longrightarrow> lts_run abs_step (abs_state s) ls (abs_state t)"
  by (induction rule: lts_run.induct) (auto intro: lts_run.intros step_inv simulated)

lemma inv_run: "lts_run step s ls t \<Longrightarrow> inv s \<Longrightarrow> inv t"
  by (induction rule: lts_run.induct) (auto intro: step_inv)

end

end
