(* ===== verification/Hash_Map.thy ===== *)
theory Hash_Map
  imports Iron_Prelude "HOL-Library.AList"
begin

text \<open>
  The \<^verbatim>\<open>HashMap\<close> of the Rust standard library, as the member store uses it: an association
  list with distinct keys. The interface the store relies on is the locale \<open>hash_map_adt\<close>;
  the association lists interpret it, and its client lemmas (removing a batch of keys) are
  proved once from the interface's laws.

  A \<^verbatim>\<open>HashMap\<close> iterates in an order that the standard library leaves unspecified (it is
  seeded per process). Code that iterates takes the order as a parameter \<open>iter\<close>; the only law
  assumed of it is \<open>iteration_of\<close>: it visits exactly the entries.
\<close>

type_synonym ('k, 'v) hash_map = "('k \<times> 'v) list"

definition hm_empty :: "('k, 'v) hash_map" where
  "hm_empty = []"

definition hm_get :: "('k, 'v) hash_map \<Rightarrow> 'k \<Rightarrow> 'v option" where
  "hm_get m k = map_of m k"

definition hm_insert :: "'k \<Rightarrow> 'v \<Rightarrow> ('k, 'v) hash_map \<Rightarrow> ('k, 'v) hash_map" where
  "hm_insert k v m = AList.update k v m"

definition hm_remove :: "'k \<Rightarrow> ('k, 'v) hash_map \<Rightarrow> ('k, 'v) hash_map" where
  "hm_remove k m = AList.delete k m"

definition hm_contains :: "('k, 'v) hash_map \<Rightarrow> 'k \<Rightarrow> bool" where
  "hm_contains m k = (hm_get m k \<noteq> None)"

definition hm_wf :: "('k, 'v) hash_map \<Rightarrow> bool" where
  "hm_wf m = distinct (map fst m)"

type_synonym ('k, 'v) iteration = "('k, 'v) hash_map \<Rightarrow> ('k \<times> 'v) list"

definition iteration_of :: "('k, 'v) iteration \<Rightarrow> bool" where
  "iteration_of iter \<longleftrightarrow> (\<forall>m. set (iter m) = set m)"

subsection \<open>The interface\<close>

locale hash_map_adt =
  fixes empty :: "'m"
    and get :: "'m \<Rightarrow> 'k \<Rightarrow> 'v option"
    and put :: "'k \<Rightarrow> 'v \<Rightarrow> 'm \<Rightarrow> 'm"
    and del :: "'k \<Rightarrow> 'm \<Rightarrow> 'm"
    and wf :: "'m \<Rightarrow> bool"
  assumes get_empty: "get empty k = None"
    and get_put: "get (put k v m) k' = (if k' = k then Some v else get m k')"
    and get_del: "get (del k m) k' = (if k' = k then None else get m k')"
    and wf_empty: "wf empty"
    and wf_put: "wf m \<Longrightarrow> wf (put k v m)"
    and wf_del: "wf m \<Longrightarrow> wf (del k m)"
begin

lemma get_del_all: "get (fold del ks m) k = (if k \<in> set ks then None else get m k)"
  by (induction ks arbitrary: m) (auto simp: get_del)

lemma wf_del_all: "wf m \<Longrightarrow> wf (fold del ks m)"
  by (induction ks arbitrary: m) (auto intro: wf_del)

lemma put_overwrites: "get (put k v (put k w m)) = get (put k v m)"
  by (auto simp: get_put)

lemma del_undoes_put: "get m k = None \<Longrightarrow> get (del k (put k v m)) = get m"
  by (auto simp: get_put get_del)

end

interpretation hm: hash_map_adt hm_empty hm_get hm_insert hm_remove hm_wf
  by unfold_locales
    (auto simp: hm_empty_def hm_get_def hm_insert_def hm_remove_def hm_wf_def update_conv'
      delete_conv' distinct_update distinct_delete)

lemmas hm_simps [simp, store_simps] =
  hm.get_empty hm.get_put hm.get_del hm.get_del_all hm.wf_empty

lemmas hm_wf_intros [intro] = hm.wf_put hm.wf_del hm.wf_del_all

lemma hm_get_in_set: "hm_wf m \<Longrightarrow> hm_get m k = Some v \<longleftrightarrow> (k, v) \<in> set m"
  by (simp add: hm_wf_def hm_get_def)

lemma iteration_ofD: "iteration_of iter \<Longrightarrow> set (iter m) = set m"
  by (simp add: iteration_of_def)

lemma iteration_id: "iteration_of (\<lambda>m. m)"
  by (simp add: iteration_of_def)

end
