(* ===== verification/F64.thy ===== *)
theory F64
  imports Complex_Main
begin

text \<open>
  The \<^verbatim>\<open>f64\<close> arithmetic of the /attestation token bucket. A finite non-negative \<^verbatim>\<open>f64\<close> is the
  rational number it stands for, and an operation is the exact one followed by rounding to the
  nearest representable number, ties to even, with 53 significant bits and the least exponent
  -1022 (IEEE 754 binary64). The bucket never leaves the finite non-negative range: its tokens
  stay between 0 and 5 and a duration is below \<open>2 ^ 64\<close> seconds, so neither overflow nor signed
  values nor NaN occur.
\<close>

type_synonym f64 = rat

text \<open>The position of the leading bit of a positive integer.\<close>

function ilog2 :: "int \<Rightarrow> int" where
  "ilog2 n = (if n \<le> 1 then 0 else 1 + ilog2 (n div 2))"
  by pat_completeness auto
termination
  by (relation "measure nat") auto

declare ilog2.simps [simp del]

text \<open>The exponent of the leading bit: \<open>2 ^ e \<le> x < 2 ^ (e + 1)\<close>.\<close>

definition f64_exponent :: "rat \<Rightarrow> int" where
  "f64_exponent x =
     (case quotient_of x of (n, d) \<Rightarrow>
        let e = ilog2 n - ilog2 d in if 2 powi e \<le> x then e else e - 1)"

text \<open>The distance between neighbouring numbers at the magnitude of \<open>x\<close>.\<close>

definition f64_ulp :: "rat \<Rightarrow> rat" where
  "f64_ulp x = 2 powi (max (f64_exponent x) (- 1022) - 52)"

definition round_half_even :: "rat \<Rightarrow> int" where
  "round_half_even x =
     (let n = \<lfloor>x\<rfloor>; r = x - of_int n
      in if r < 1/2 then n else if r > 1/2 then n + 1 else if even n then n else n + 1)"

definition f64_round :: "rat \<Rightarrow> f64" where
  "f64_round x = (if x = 0 then 0 else of_int (round_half_even (x / f64_ulp x)) * f64_ulp x)"

definition f64_add :: "f64 \<Rightarrow> f64 \<Rightarrow> f64" where "f64_add a b = f64_round (a + b)"
definition f64_sub :: "f64 \<Rightarrow> f64 \<Rightarrow> f64" where "f64_sub a b = f64_round (a - b)"
definition f64_mul :: "f64 \<Rightarrow> f64 \<Rightarrow> f64" where "f64_mul a b = f64_round (a * b)"
definition f64_div :: "f64 \<Rightarrow> f64 \<Rightarrow> f64" where "f64_div a b = f64_round (a / b)"
definition f64_of_nat :: "nat \<Rightarrow> f64" where "f64_of_nat n = f64_round (of_nat n)"

text \<open>The literal \<^verbatim>\<open>0.1\<close>: the \<^verbatim>\<open>f64\<close> nearest to one tenth.\<close>

definition f64_tenth :: f64 where "f64_tenth = f64_round (1/10)"

subsection \<open>Exponents\<close>

lemma ilog2_bounds:
  "1 \<le> n \<Longrightarrow> 0 \<le> ilog2 n \<and> 2 powi ilog2 n \<le> (of_int n :: rat) \<and> of_int n < (2 powi (ilog2 n + 1) :: rat)"
proof (induction n rule: ilog2.induct)
  case (1 n)
  show ?case
  proof (cases "n \<le> 1")
    case True
    with "1.prems" have "n = 1" by simp
    then show ?thesis by (simp add: ilog2.simps)
  next
    case False
    let ?e = "ilog2 (n div 2)"
    have IH: "0 \<le> ?e" "2 powi ?e \<le> (of_int (n div 2) :: rat)" "of_int (n div 2) < (2 powi (?e + 1) :: rat)"
      using "1.IH" False by auto
    have pow: "2 powi (?e + 1) = (of_int (2 ^ nat (?e + 1)) :: rat)" "2 powi ?e = (of_int (2 ^ nat ?e) :: rat)"
      using IH(1) by (simp_all add: power_int_def)
    have "n div 2 < 2 ^ nat (?e + 1)"
      using IH(3) unfolding pow of_int_less_iff .
    then have "n < 2 * 2 ^ nat (?e + 1)" by linarith
    then have "of_int n < (of_int (2 * 2 ^ nat (?e + 1)) :: rat)"
      by (simp only: of_int_less_iff)
    also have "\<dots> = 2 * 2 powi (?e + 1)"
      unfolding pow(1) by simp
    also have "\<dots> = 2 powi (?e + 1 + 1)"
      by (subst power_int_add_1 [of 2 "?e + 1"]) simp_all
    finally have up: "of_int n < (2 powi (?e + 1 + 1) :: rat)" .
    have "2 * (n div 2) \<le> n" by simp
    then have "2 * (of_int (n div 2) :: rat) \<le> of_int n"
      by (metis of_int_le_iff of_int_mult of_int_numeral)
    with IH(2) have "2 powi (?e + 1) \<le> (of_int n :: rat)"
      by (simp add: power_int_add_1)
    with up IH(1) False show ?thesis
      by (simp add: ilog2.simps [of n] add.commute)
  qed
qed

lemma f64_exponent_bounds:
  assumes "0 < x"
  shows "2 powi f64_exponent x \<le> x" "x < 2 powi (f64_exponent x + 1)"
proof -
  obtain n d where q: "quotient_of x = (n, d)" by (cases "quotient_of x")
  have d: "0 < d" and x: "x = of_int n / of_int d"
    using quotient_of_denom_pos [OF q] quotient_of_div [OF q] by auto
  with assms have n: "0 < n"
    by (simp add: zero_less_divide_iff)
  let ?a = "ilog2 n" and ?b = "ilog2 d"
  have na: "2 powi ?a \<le> (of_int n :: rat)" "of_int n < (2 powi (?a + 1) :: rat)"
    using ilog2_bounds [of n] n by auto
  have db: "2 powi ?b \<le> (of_int d :: rat)" "of_int d < (2 powi (?b + 1) :: rat)"
    using ilog2_bounds [of d] d by auto
  have lo: "2 powi (?a - ?b - 1) \<le> x"
  proof -
    have "2 powi (?a - ?b - 1) * of_int d \<le> 2 powi (?a - ?b - 1) * (2 powi (?b + 1) :: rat)"
      using db(2) by (intro mult_left_mono) auto
    also have "\<dots> = 2 powi ?a" by (simp flip: power_int_add)
    also have "\<dots> \<le> of_int n" by (rule na(1))
    finally show ?thesis using d by (simp add: x pos_le_divide_eq)
  qed
  have hi: "x < 2 powi (?a - ?b + 1)"
  proof -
    have "of_int n < (2 powi (?a - ?b + 1) * 2 powi ?b :: rat)"
      using na(2) by (simp flip: power_int_add)
    also have "\<dots> \<le> 2 powi (?a - ?b + 1) * of_int d"
      using db(1) by (intro mult_left_mono) auto
    finally show ?thesis using d by (simp add: x pos_divide_less_eq)
  qed
  show "2 powi f64_exponent x \<le> x" "x < 2 powi (f64_exponent x + 1)"
    using lo hi by (auto simp: f64_exponent_def q Let_def)
qed

lemma powi_2_le_iff: "(2 powi a \<le> (2 powi b :: rat)) \<longleftrightarrow> a \<le> b"
  by (meson not_less one_less_numeral_iff power_int_increasing power_int_strict_increasing
      semiring_norm(76) less_imp_le)

lemma f64_exponent_mono:
  assumes "0 < x" "x \<le> y"
  shows "f64_exponent x \<le> f64_exponent y"
proof -
  have "2 powi f64_exponent x < (2 powi (f64_exponent y + 1) :: rat)"
    using assms f64_exponent_bounds(1) [of x] f64_exponent_bounds(2) [of y] by linarith
  then have "\<not> f64_exponent y + 1 \<le> f64_exponent x"
    by (metis linorder_not_less powi_2_le_iff)
  then show ?thesis by simp
qed

subsection \<open>Rounding\<close>

lemma f64_ulp_pos: "0 < f64_ulp x"
  by (simp add: f64_ulp_def)

lemma f64_ulp_mono: "0 < x \<Longrightarrow> x \<le> y \<Longrightarrow> f64_ulp x \<le> f64_ulp y"
  unfolding f64_ulp_def powi_2_le_iff using f64_exponent_mono [of x y] by simp

lemma round_half_even_near: "\<bar>of_int (round_half_even x) - x\<bar> \<le> 1/2"
proof -
  have "of_int \<lfloor>x\<rfloor> \<le> x" "x < of_int \<lfloor>x\<rfloor> + 1" by linarith+
  then show ?thesis by (auto simp: round_half_even_def Let_def)
qed

lemma round_half_even_of_int [simp]: "round_half_even (of_int n) = n"
  by (simp add: round_half_even_def)

lemma round_half_even_mono:
  assumes "x \<le> y"
  shows "round_half_even x \<le> round_half_even y"
proof (cases "\<lfloor>x\<rfloor> = \<lfloor>y\<rfloor>")
  case True
  with assms show ?thesis by (auto simp: round_half_even_def Let_def)
next
  case False
  with assms have "\<lfloor>x\<rfloor> + 1 \<le> \<lfloor>y\<rfloor>"
    using floor_mono [OF assms] by simp
  moreover have "round_half_even x \<le> \<lfloor>x\<rfloor> + 1" "\<lfloor>y\<rfloor> \<le> round_half_even y"
    by (simp_all add: round_half_even_def Let_def)
  ultimately show ?thesis by linarith
qed

text \<open>An integer multiple of the grid at its own magnitude is representable.\<close>

lemma f64_round_exact: "x = of_int n * f64_ulp x \<Longrightarrow> f64_round x = x"
proof -
  assume "x = of_int n * f64_ulp x"
  then have "x / f64_ulp x = of_int n"
    using f64_ulp_pos [of x] by (simp add: field_simps)
  then have "f64_round x = x / f64_ulp x * f64_ulp x"
    by (auto simp: f64_round_def)
  then show ?thesis
    using f64_ulp_pos [of x] by simp
qed

lemma f64_round_0 [simp]: "f64_round 0 = 0"
  by (simp add: f64_round_def)

lemma f64_round_nonneg: "0 \<le> x \<Longrightarrow> 0 \<le> f64_round x"
  using f64_ulp_pos [of x] round_half_even_mono [of "of_int 0" "x / f64_ulp x"]
  unfolding f64_round_def round_half_even_of_int by simp

text \<open>The rounding error: half an ulp, hence relative \<open>2 ^ -53\<close> above the subnormal range.\<close>

lemma f64_round_err: "0 < x \<Longrightarrow> \<bar>f64_round x - x\<bar> \<le> f64_ulp x / 2"
proof -
  assume "0 < x"
  let ?u = "f64_ulp x"
  have u: "0 < ?u" by (rule f64_ulp_pos)
  have "\<bar>of_int (round_half_even (x / ?u)) - x / ?u\<bar> * ?u \<le> 1/2 * ?u"
    using round_half_even_near u by (intro mult_right_mono) auto
  moreover have "\<bar>of_int (round_half_even (x / ?u)) - x / ?u\<bar> * ?u = \<bar>of_int (round_half_even (x / ?u)) * ?u - x\<bar>"
    unfolding abs_mult_pos [OF less_imp_le [OF u]] using u by (simp add: left_diff_distrib)
  ultimately show ?thesis
    using \<open>0 < x\<close> by (simp add: f64_round_def)
qed

text \<open>Rounding never crosses a power of two of the normal range.\<close>

lemma f64_round_le_pow:
  assumes "0 < x" "x \<le> 2 powi k" "-1022 \<le> k"
  shows "f64_round x \<le> 2 powi k"
proof -
  let ?e = "max (f64_exponent x) (- 1022)"
  have "f64_exponent x \<le> k"
    using f64_exponent_bounds(1) [OF assms(1)] assms(2) powi_2_le_iff order_trans by blast
  then have e: "?e - 52 \<le> k" using assms(3) by simp
  define n :: int where "n = 2 ^ nat (k - (?e - 52))"
  have n: "2 powi k = of_int n * f64_ulp x"
  proof -
    have "of_int n = (2 powi (k - (?e - 52)) :: rat)"
      using e by (simp add: n_def power_int_def)
    then show ?thesis unfolding f64_ulp_def by (simp flip: power_int_add)
  qed
  then have "x / f64_ulp x \<le> of_int n"
    using assms(2) f64_ulp_pos [of x] by (simp add: pos_divide_le_eq)
  then have "round_half_even (x / f64_ulp x) \<le> n"
    using round_half_even_mono [of "x / f64_ulp x" "of_int n"] by simp
  then have "of_int (round_half_even (x / f64_ulp x)) * f64_ulp x \<le> of_int n * f64_ulp x"
    using f64_ulp_pos [of x] by (intro mult_right_mono) auto
  then show ?thesis using assms(1) n by (simp add: f64_round_def)
qed

lemma f64_round_ge_pow:
  assumes "0 < x" "-1022 \<le> f64_exponent x"
  shows "2 powi f64_exponent x \<le> f64_round x"
proof -
  let ?e = "f64_exponent x"
  have u: "f64_ulp x = 2 powi (?e - 52)"
    using assms(2) by (simp add: f64_ulp_def)
  have p: "2 powi ?e = of_int (2 ^ 52) * f64_ulp x"
    unfolding u by (simp add: power_int_diff)
  then have "of_int (2 ^ 52) \<le> x / f64_ulp x"
    using f64_exponent_bounds(1) [OF assms(1)] f64_ulp_pos [of x] by (simp add: pos_le_divide_eq)
  then have "2 ^ 52 \<le> round_half_even (x / f64_ulp x)"
    using round_half_even_mono [of "of_int (2 ^ 52)" "x / f64_ulp x"] by (simp only: round_half_even_of_int)
  then have "of_int (2 ^ 52) * f64_ulp x \<le> of_int (round_half_even (x / f64_ulp x)) * f64_ulp x"
    using f64_ulp_pos [of x] by (intro mult_right_mono) (simp_all only: of_int_le_iff less_imp_le)
  then show ?thesis using assms(1) p by (simp add: f64_round_def)
qed

lemma f64_round_mono:
  assumes "0 \<le> x" "x \<le> y"
  shows "f64_round x \<le> f64_round y"
proof (cases "x = 0")
  case True
  then show ?thesis using assms f64_round_nonneg [of y] by simp
next
  case False
  then have x: "0 < x" and y: "0 < y" using assms by auto
  let ?ex = "max (f64_exponent x) (- 1022)" and ?ey = "max (f64_exponent y) (- 1022)"
  show ?thesis
  proof (cases "?ex = ?ey")
    case True
    then have u: "f64_ulp x = f64_ulp y" by (simp add: f64_ulp_def)
    have "x / f64_ulp y \<le> y / f64_ulp y"
      using assms f64_ulp_pos [of y] by (simp add: divide_right_mono)
    then have "round_half_even (x / f64_ulp y) \<le> round_half_even (y / f64_ulp y)"
      by (rule round_half_even_mono)
    then show ?thesis
      using x y f64_ulp_pos [of y] by (simp add: f64_round_def u)
  next
    case False
    then have e: "?ex + 1 \<le> f64_exponent y" "-1022 \<le> f64_exponent y"
      using f64_exponent_mono [OF x assms(2)] by auto
    have "x \<le> 2 powi (?ex + 1)"
      using f64_exponent_bounds(2) [OF x] powi_2_le_iff [of "f64_exponent x + 1" "?ex + 1"] by linarith
    then have "f64_round x \<le> 2 powi (?ex + 1)"
      by (rule f64_round_le_pow [OF x]) simp
    also have "\<dots> \<le> 2 powi f64_exponent y" using e by (simp add: powi_2_le_iff)
    also have "\<dots> \<le> f64_round y" by (rule f64_round_ge_pow [OF y e(2)])
    finally show ?thesis .
  qed
qed

lemma f64_round_upper: "0 \<le> x \<Longrightarrow> f64_round x \<le> x + x / 2 ^ 53 + 1 / 2 ^ 1075"
proof (cases "x = 0")
  case False
  assume "0 \<le> x"
  with False have x: "0 < x" by simp
  have "f64_ulp x / 2 \<le> x / 2 ^ 53 + 1 / 2 ^ 1075"
  proof (cases "-1022 \<le> f64_exponent x")
    case True
    then have "f64_ulp x = 2 powi f64_exponent x / 2 ^ 52"
      by (simp add: f64_ulp_def power_int_diff)
    also have "\<dots> \<le> x / 2 ^ 52"
      using f64_exponent_bounds(1) [OF x] by (rule divide_right_mono) simp
    finally have "f64_ulp x / 2 \<le> x / 2 ^ 53" by simp
    then show ?thesis by (simp add: add_increasing2)
  next
    case small: False
    then have "f64_ulp x = 2 powi (- 1074)" by (simp add: f64_ulp_def)
    then have "f64_ulp x / 2 = 1 / 2 ^ 1075" by (simp add: power_int_def power_one_over)
    then show ?thesis using x by (simp add: add_increasing)
  qed
  then show ?thesis using f64_round_err [OF x] by linarith
qed simp

text \<open>The numbers the token bucket names are representable.\<close>

lemma f64_round_consts:
  "f64_round 1 = 1" "f64_round 5 = 5" "f64_round 10 = 10" "f64_round (10 * f64_tenth) = 1"
  "f64_tenth = 3602879701896397 / 36028797018963968"
  by code_simp+

lemma f64_round_idem: "0 \<le> x \<Longrightarrow> f64_round (f64_round x) = f64_round x"
proof (cases "x = 0")
  case False
  assume "0 \<le> x"
  with False have x: "0 < x" by simp
  let ?y = "f64_round x" and ?n = "round_half_even (x / f64_ulp x)"
  let ?e = "max (f64_exponent x) (- 1022)"
  have y: "?y = of_int ?n * f64_ulp x" using False by (simp add: f64_round_def)
  show ?thesis
  proof (cases "?y = 0")
    case nz: False
    have y0: "0 < ?y" using nz f64_round_nonneg [of x] x by simp
    have "?y \<le> 2 powi (?e + 1)"
      using f64_exponent_bounds(2) [OF x] powi_2_le_iff [of "f64_exponent x + 1" "?e + 1"]
      by (intro f64_round_le_pow [OF x]) (auto intro: less_imp_le order_trans)
    then consider "?y = 2 powi (?e + 1)" | "?y < 2 powi (?e + 1)" by linarith
    then show ?thesis
    proof cases
      case 1
      then have "f64_exponent ?y \<le> ?e + 1"
        using f64_exponent_bounds(1) [OF y0] powi_2_le_iff by metis
      moreover have "?e + 1 \<le> f64_exponent ?y"
        using f64_exponent_bounds(2) [OF y0] 1 powi_2_le_iff [of "f64_exponent ?y + 1" "?e + 1"]
        by linarith
      ultimately have "f64_ulp ?y = 2 powi (?e + 1 - 52)" by (simp add: f64_ulp_def)
      moreover have "of_int (2 ^ 52) * 2 powi (?e + 1 - 52) = (2 powi (?e + 1) :: rat)"
        by (subst power_int_diff) simp_all
      ultimately have "?y = of_int (2 ^ 52) * f64_ulp ?y" using 1 by (simp only:)
      then show ?thesis by (rule f64_round_exact)
    next
      case 2
      have "f64_exponent ?y < ?e + 1"
        using f64_exponent_bounds(1) [OF y0] 2 powi_2_le_iff [of "?e + 1" "f64_exponent ?y"] by linarith
      then have le: "max (f64_exponent ?y) (- 1022) \<le> ?e" by simp
      let ?k = "?e - max (f64_exponent ?y) (- 1022)"
      have "of_int (2 ^ nat ?k) = (2 powi ?k :: rat)"
        using le by (simp add: power_int_def)
      then have "f64_ulp x = of_int (2 ^ nat ?k) * f64_ulp ?y"
        unfolding f64_ulp_def by (simp flip: power_int_add)
      then have "?y = of_int (?n * 2 ^ nat ?k) * f64_ulp ?y" using y by simp
      then show ?thesis by (rule f64_round_exact)
    qed
  qed simp
qed simp

end
