(* ===== verification/Member_Store.thy ===== *)
theory Member_Store
  imports Hash_Map F64
begin

text \<open>
  \<^verbatim>\<open>src/src/state.rs\<close>: the RAM-only member store. \<open>inner\<close> is the state behind the lock; every
  operation takes it and returns it, one lock acquisition per operation (a poisoned lock is
  recovered by the code, so acquiring it never fails). An \<^verbatim>\<open>Instant\<close> is a number of nanoseconds
  on the monotonic clock.

  The well-formedness invariant \<open>store_wf\<close> relates the two indexes: a bearer is in the token
  index exactly when it is a live session of the public key it maps to, and no key holds more
  than \<open>DEVICE_CAP\<close> sessions.
\<close>

type_synonym pubkey = bytes
type_synonym member_hash = bytes
type_synonym instant = nat

definition DEVICE_CAP :: nat where "DEVICE_CAP = 3"

definition ATTEST_BURST :: f64 where "ATTEST_BURST = 5"

definition ATTEST_REFILL_PER_SEC :: f64 where "ATTEST_REFILL_PER_SEC = f64_tenth"

record member_entry =
  client_pubkey :: pubkey
  member_hash :: member_hash
  session_token :: string
  original_tx_id :: string

record member =
  stored_hash :: member_hash
  stored_tx_id :: string
  sessions :: "string list"

record inner =
  by_pubkey :: "(pubkey, member) hash_map"
  by_token :: "(string, pubkey) hash_map"
  seen_nonces :: "string set"
  attest_buckets :: "(pubkey, f64 \<times> instant) hash_map"

definition default_inner :: inner where
  "default_inner = \<lparr>by_pubkey = hm_empty, by_token = hm_empty, seen_nonces = {}, attest_buckets = hm_empty\<rparr>"

definition session_count :: "pubkey \<Rightarrow> inner \<Rightarrow> nat" where
  "session_count pk s = (case hm_get (by_pubkey s) pk of None \<Rightarrow> 0 | Some m \<Rightarrow> length (sessions m))"

subsection \<open>The /attestation token bucket\<close>

text \<open>\<^verbatim>\<open>Duration::as_secs_f64\<close>: whole seconds plus nanoseconds over \<open>10 ^ 9\<close>, each in \<^verbatim>\<open>f64\<close>.\<close>

definition as_secs_f64 :: "nat \<Rightarrow> f64" where
  "as_secs_f64 nanos =
     f64_add (f64_of_nat (nanos div 10 ^ 9)) (f64_div (f64_of_nat (nanos mod 10 ^ 9)) (f64_of_nat (10 ^ 9)))"

text \<open>\<^verbatim>\<open>now.duration_since(earlier)\<close> saturates at zero, as subtraction on \<^typ>\<open>nat\<close> does.\<close>

definition duration_since :: "instant \<Rightarrow> instant \<Rightarrow> nat" where
  "duration_since now earlier = now - earlier"

definition refilled :: "f64 \<Rightarrow> nat \<Rightarrow> f64" where
  "refilled tokens elapsed =
     min (f64_add tokens (f64_mul (as_secs_f64 elapsed) ATTEST_REFILL_PER_SEC)) ATTEST_BURST"

definition allow_attestation :: "instant \<Rightarrow> pubkey \<Rightarrow> inner \<Rightarrow> bool \<times> inner" where
  "allow_attestation now pk s =
     (let (tokens, last) = (case hm_get (attest_buckets s) pk of
            None \<Rightarrow> (ATTEST_BURST, now) | Some b \<Rightarrow> b);
          t = refilled tokens (duration_since now last)
      in if t \<ge> 1
         then (True, s\<lparr>attest_buckets := hm_insert pk (f64_sub t 1, now) (attest_buckets s)\<rparr>)
         else (False, s\<lparr>attest_buckets := hm_insert pk (t, now) (attest_buckets s)\<rparr>))"

subsection \<open>Members and bearers\<close>

text \<open>
  \<^verbatim>\<open>while member.sessions.len() > DEVICE_CAP\<close>: \<^verbatim>\<open>pop_front\<close> moves the oldest bearer to the list of
  evicted ones.
\<close>

fun evict_loop :: "string list \<Rightarrow> string list \<Rightarrow> string list \<times> string list" where
  "evict_loop out [] = (out, [])"
| "evict_loop out (old # rest) =
     (if length (old # rest) > DEVICE_CAP then evict_loop (out @ [old]) rest else (out, old # rest))"

definition member_insert :: "member_entry \<Rightarrow> inner \<Rightarrow> bool \<times> inner" where
  "member_insert entry s =
     (let pk = client_pubkey entry;
          m0 = (case hm_get (by_pubkey s) pk of
                  Some m \<Rightarrow> m
                | None \<Rightarrow> \<lparr>stored_hash = member_hash entry, stored_tx_id = original_tx_id entry, sessions = []\<rparr>);
          m1 = m0\<lparr>stored_hash := member_hash entry, stored_tx_id := original_tx_id entry,
                  sessions := sessions m0 @ [session_token entry]\<rparr>;
          (evicted, live) = evict_loop [] (sessions m1);
          m2 = m1\<lparr>sessions := live\<rparr>
      in (True, s\<lparr>by_pubkey := hm_insert pk m2 (by_pubkey s),
                  by_token := hm_insert (session_token entry) pk (fold hm_remove evicted (by_token s))\<rparr>))"

definition get_by_token :: "string \<Rightarrow> inner \<Rightarrow> member_entry option" where
  "get_by_token token s =
     (case hm_get (by_token s) token of None \<Rightarrow> None
      | Some pk \<Rightarrow> (case hm_get (by_pubkey s) pk of None \<Rightarrow> None
        | Some m \<Rightarrow> Some \<lparr>client_pubkey = pk, member_hash = stored_hash m,
                          session_token = token, original_tx_id = stored_tx_id m\<rparr>))"

definition contains_token :: "string \<Rightarrow> inner \<Rightarrow> bool" where
  "contains_token token s = hm_contains (by_token s) token"

text \<open>\<open>iter\<close> is the map's iteration order: \<^verbatim>\<open>find\<close> takes the first matching entry in it.\<close>

definition revoke_by_member_hash ::
  "(pubkey, member) iteration \<Rightarrow> member_hash \<Rightarrow> inner \<Rightarrow> bool \<times> inner" where
  "revoke_by_member_hash iter h s =
     (case List.find (\<lambda>(_, m). stored_hash m = h) (iter (by_pubkey s)) of
        None \<Rightarrow> (False, s)
      | Some (pk, _) \<Rightarrow>
          (True,
           (case hm_get (by_pubkey s) pk of
              None \<Rightarrow> s\<lparr>by_pubkey := hm_remove pk (by_pubkey s)\<rparr>
            | Some m \<Rightarrow> s\<lparr>by_pubkey := hm_remove pk (by_pubkey s),
                           by_token := fold hm_remove (sessions m) (by_token s)\<rparr>)))"

definition note_nonce :: "string \<Rightarrow> inner \<Rightarrow> bool \<times> inner" where
  "note_nonce nonce s = (nonce \<notin> seen_nonces s, s\<lparr>seen_nonces := insert nonce (seen_nonces s)\<rparr>)"

subsection \<open>The invariant\<close>

definition live_sessions :: "inner \<Rightarrow> pubkey \<Rightarrow> string list" where
  "live_sessions s pk = (case hm_get (by_pubkey s) pk of None \<Rightarrow> [] | Some m \<Rightarrow> sessions m)"

definition store_wf :: "inner \<Rightarrow> bool" where
  "store_wf s \<longleftrightarrow>
     hm_wf (by_pubkey s)
     \<and> (\<forall>t pk. hm_get (by_token s) t = Some pk \<longleftrightarrow> t \<in> set (live_sessions s pk))
     \<and> (\<forall>pk. distinct (live_sessions s pk) \<and> length (live_sessions s pk) \<le> DEVICE_CAP)
     \<and> (\<forall>pk m. hm_get (by_pubkey s) pk = Some m \<longrightarrow> sessions m \<noteq> [])"

lemma store_wfD:
  assumes "store_wf s"
  shows "hm_wf (by_pubkey s)"
    "hm_get (by_token s) t = Some pk \<longleftrightarrow> t \<in> set (live_sessions s pk)"
    "distinct (live_sessions s pk)" "length (live_sessions s pk) \<le> DEVICE_CAP"
    "hm_get (by_pubkey s) pk = Some m \<Longrightarrow> sessions m \<noteq> []"
  using assms by (auto simp: store_wf_def)

lemma live_session_unique_owner:
  assumes "store_wf s" "t \<in> set (live_sessions s pk)" "t \<in> set (live_sessions s pk')"
  shows "pk = pk'"
  using assms store_wfD(2) [OF assms(1)] by (metis option.inject)

lemma session_count_live: "session_count pk s = length (live_sessions s pk)"
  by (simp add: session_count_def live_sessions_def split: option.splits)

lemma contains_token_live: "store_wf s \<Longrightarrow> contains_token t s \<longleftrightarrow> (\<exists>pk. t \<in> set (live_sessions s pk))"
  by (auto simp: contains_token_def hm_contains_def store_wfD)

lemma evict_loop_eq:
  "evict_loop out ss = (out @ take (length ss - DEVICE_CAP) ss, drop (length ss - DEVICE_CAP) ss)"
  by (induction ss arbitrary: out) (auto simp: Suc_diff_le)

subsection \<open>Enrolling\<close>

definition evicted_by :: "member_entry \<Rightarrow> inner \<Rightarrow> string list" where
  "evicted_by e s =
     take (Suc (length (live_sessions s (client_pubkey e))) - DEVICE_CAP)
       (live_sessions s (client_pubkey e) @ [session_token e])"

lemma member_insert_result: "fst (member_insert e s)"
  by (simp add: member_insert_def Let_def case_prod_unfold)

lemma member_insert_live:
  "live_sessions (snd (member_insert e s)) pk =
     (if pk = client_pubkey e
      then drop (Suc (length (live_sessions s pk)) - DEVICE_CAP) (live_sessions s pk) @ [session_token e]
      else live_sessions s pk)"
  by (auto simp: member_insert_def Let_def live_sessions_def evict_loop_eq DEVICE_CAP_def split: option.splits)

lemma member_insert_tokens:
  "hm_get (by_token (snd (member_insert e s))) t =
     (if t = session_token e then Some (client_pubkey e)
      else if t \<in> set (evicted_by e s) then None else hm_get (by_token s) t)"
  by (auto simp: member_insert_def Let_def live_sessions_def evict_loop_eq evicted_by_def split: option.splits)

lemma member_insert_member:
  "hm_get (by_pubkey (snd (member_insert e s))) pk =
     (if pk = client_pubkey e
      then Some \<lparr>stored_hash = member_hash e, stored_tx_id = original_tx_id e,
                 sessions = live_sessions (snd (member_insert e s)) pk\<rparr>
      else hm_get (by_pubkey s) pk)"
  by (auto simp: member_insert_def Let_def live_sessions_def evict_loop_eq split: option.splits)

lemma member_insert_frame:
  "seen_nonces (snd (member_insert e s)) = seen_nonces s"
  "attest_buckets (snd (member_insert e s)) = attest_buckets s"
  "hm_wf (by_pubkey s) \<Longrightarrow> hm_wf (by_pubkey (snd (member_insert e s)))"
  by (auto simp: member_insert_def Let_def case_prod_unfold)

lemma evicted_by_old:
  "evicted_by e s = take (Suc (length (live_sessions s (client_pubkey e))) - DEVICE_CAP)
     (live_sessions s (client_pubkey e))"
  by (simp add: evicted_by_def DEVICE_CAP_def)

lemma member_insert_wf:
  assumes wf: "store_wf s" and fresh: "\<not> contains_token (session_token e) s"
  shows "store_wf (snd (member_insert e s))"
proof -
  let ?s = "snd (member_insert e s)" and ?pk = "client_pubkey e" and ?t = "session_token e"
  let ?old = "live_sessions s ?pk"
  let ?n = "Suc (length ?old) - DEVICE_CAP"
  have t_new: "?t \<notin> set (live_sessions s pk)" for pk
    using fresh contains_token_live [OF wf] by blast
  then have dist: "distinct (?old @ [?t])" using store_wfD(3) [OF wf] by simp
  have disj: "set (evicted_by e s) \<inter> set (drop ?n ?old) = {}"
    unfolding evicted_by_old using dist by (intro set_take_disj_set_drop_if_distinct) auto
  have split: "set ?old = set (evicted_by e s) \<union> set (drop ?n ?old)"
    unfolding evicted_by_old by (metis append_take_drop_id set_append)
  have tokens: "hm_get (by_token ?s) t = Some pk \<longleftrightarrow> t \<in> set (live_sessions ?s pk)" for t pk
  proof (cases "pk = ?pk")
    case True
    then show ?thesis
      using t_new [of ?pk] disj split store_wfD(2) [OF wf, of t ?pk]
      by (auto simp: member_insert_tokens member_insert_live)
  next
    case False
    have "t \<notin> set (evicted_by e s)" if "t \<in> set (live_sessions s pk)"
      using that split False live_session_unique_owner [OF wf, of t pk ?pk] by blast
    then show ?thesis
      using False t_new [of pk] store_wfD(2) [OF wf, of t pk]
      by (auto simp: member_insert_tokens member_insert_live)
  qed
  have sizes: "distinct (live_sessions ?s pk) \<and> length (live_sessions ?s pk) \<le> DEVICE_CAP" for pk
    using store_wfD(3,4) [OF wf, of pk] dist
    by (auto simp: member_insert_live DEVICE_CAP_def dest: in_set_dropD)
  have nonempty: "sessions m \<noteq> []" if "hm_get (by_pubkey ?s) pk = Some m" for pk m
    using that store_wfD(5) [OF wf, of pk m]
    by (auto simp: member_insert_member member_insert_live split: if_splits)
  show ?thesis
    unfolding store_wf_def
    using tokens sizes nonempty member_insert_frame(3) [OF store_wfD(1) [OF wf]] by blast
qed

lemma member_insert_contains:
  assumes "store_wf s" "\<not> contains_token (session_token e) s"
  shows "contains_token t (snd (member_insert e s)) \<longleftrightarrow>
    t = session_token e \<or> (contains_token t s \<and> t \<notin> set (evicted_by e s))"
  by (auto simp: contains_token_def hm_contains_def member_insert_tokens)

subsection \<open>Looking up\<close>

lemma get_by_token_iff:
  assumes "store_wf s"
  shows "get_by_token t s = Some e \<longleftrightarrow>
    session_token e = t \<and> t \<in> set (live_sessions s (client_pubkey e)) \<and>
    (\<exists>m. hm_get (by_pubkey s) (client_pubkey e) = Some m \<and> member_hash e = stored_hash m \<and> original_tx_id e = stored_tx_id m)"
proof
  assume "get_by_token t s = Some e"
  then show "session_token e = t \<and> t \<in> set (live_sessions s (client_pubkey e)) \<and>
    (\<exists>m. hm_get (by_pubkey s) (client_pubkey e) = Some m \<and> member_hash e = stored_hash m \<and> original_tx_id e = stored_tx_id m)"
    using store_wfD(2) [OF assms] by (auto simp: get_by_token_def split: option.splits)
next
  assume *: "session_token e = t \<and> t \<in> set (live_sessions s (client_pubkey e)) \<and>
    (\<exists>m. hm_get (by_pubkey s) (client_pubkey e) = Some m \<and> member_hash e = stored_hash m \<and> original_tx_id e = stored_tx_id m)"
  then have "hm_get (by_token s) t = Some (client_pubkey e)"
    using store_wfD(2) [OF assms] by blast
  with * show "get_by_token t s = Some e"
    by (cases e) (auto simp: get_by_token_def)
qed

lemma get_by_token_contains:
  assumes "store_wf s"
  shows "contains_token t s \<longleftrightarrow> (\<exists>e. get_by_token t s = Some e)"
proof
  assume "contains_token t s"
  then obtain pk where pk: "t \<in> set (live_sessions s pk)"
    using contains_token_live [OF assms] by blast
  then obtain m where "hm_get (by_pubkey s) pk = Some m"
    by (cases "hm_get (by_pubkey s) pk") (auto simp: live_sessions_def)
  moreover have "hm_get (by_token s) t = Some pk"
    using pk store_wfD(2) [OF assms] by blast
  ultimately show "\<exists>e. get_by_token t s = Some e"
    by (simp add: get_by_token_def)
next
  assume "\<exists>e. get_by_token t s = Some e"
  then show "contains_token t s"
    by (auto simp: get_by_token_def contains_token_def hm_contains_def split: option.splits)
qed

subsection \<open>Revoking\<close>

lemma revoke_cases [consumes 2, case_names none some]:
  assumes "iteration_of iter" "store_wf s"
  obtains "revoke_by_member_hash iter h s = (False, s)"
      "\<And>pk m. hm_get (by_pubkey s) pk = Some m \<Longrightarrow> stored_hash m \<noteq> h"
    | pk m where "hm_get (by_pubkey s) pk = Some m" "stored_hash m = h"
      "revoke_by_member_hash iter h s =
        (True, s\<lparr>by_pubkey := hm_remove pk (by_pubkey s), by_token := fold hm_remove (sessions m) (by_token s)\<rparr>)"
proof (cases "List.find (\<lambda>(_, m). stored_hash m = h) (iter (by_pubkey s))")
  case None
  then have "stored_hash m \<noteq> h" if "hm_get (by_pubkey s) pk = Some m" for pk m
    using that iteration_ofD [OF assms(1)] hm_get_in_set [OF store_wfD(1) [OF assms(2)]]
    by (fastforce simp: find_None_iff)
  with None that(1) show thesis by (simp add: revoke_by_member_hash_def)
next
  case (Some p)
  obtain pk m where p: "p = (pk, m)" by (cases p)
  have "p \<in> set (iter (by_pubkey s))" "stored_hash m = h"
    using Some p by (auto simp: find_Some_iff in_set_conv_nth)
  then have "hm_get (by_pubkey s) pk = Some m"
    using p iteration_ofD [OF assms(1)] hm_get_in_set [OF store_wfD(1) [OF assms(2)]] by auto
  with Some p \<open>stored_hash m = h\<close> that(2) show thesis
    by (simp add: revoke_by_member_hash_def)
qed

text \<open>Removing one member with all its bearers.\<close>

lemma remove_member_live:
  "live_sessions (s\<lparr>by_pubkey := hm_remove pk (by_pubkey s), by_token := bt\<rparr>) pk' =
     (if pk' = pk then [] else live_sessions s pk')"
  by (simp add: live_sessions_def)

lemma remove_member_wf:
  assumes wf: "store_wf s" and m: "hm_get (by_pubkey s) pk = Some m"
  shows "store_wf (s\<lparr>by_pubkey := hm_remove pk (by_pubkey s), by_token := fold hm_remove (sessions m) (by_token s)\<rparr>)"
proof -
  have live: "sessions m = live_sessions s pk" using m by (simp add: live_sessions_def)
  have "t \<notin> set (live_sessions s pk)" if "t \<in> set (live_sessions s pk')" "pk' \<noteq> pk" for t pk'
    using that live_session_unique_owner [OF wf] by blast
  then show ?thesis
    using wf unfolding store_wf_def remove_member_live live
    by (auto simp: intro: hm.wf_del split: if_splits)
qed

lemma revoke_wf:
  assumes "iteration_of iter" "store_wf s"
  shows "store_wf (snd (revoke_by_member_hash iter h s))"
  using assms
proof (cases rule: revoke_cases [where h = h])
  case none
  then show ?thesis using assms by simp
next
  case (some pk m)
  then show ?thesis using remove_member_wf [OF assms(2)] by simp
qed

lemma revoke_frame:
  assumes "iteration_of iter" "store_wf s"
  shows "seen_nonces (snd (revoke_by_member_hash iter h s)) = seen_nonces s"
    "attest_buckets (snd (revoke_by_member_hash iter h s)) = attest_buckets s"
  using assms by (cases rule: revoke_cases [where h = h]; simp)+

lemma revoke_true_iff:
  assumes "iteration_of iter" "store_wf s"
  shows "fst (revoke_by_member_hash iter h s) \<longleftrightarrow>
    (\<exists>pk m. hm_get (by_pubkey s) pk = Some m \<and> stored_hash m = h)"
  using assms by (cases rule: revoke_cases [where h = h]) auto

lemma remove_member_get:
  assumes wf: "store_wf s" and m: "hm_get (by_pubkey s) pk = Some m"
  shows "get_by_token t
      (s\<lparr>by_pubkey := hm_remove pk (by_pubkey s), by_token := fold hm_remove (sessions m) (by_token s)\<rparr>) =
    (if t \<in> set (live_sessions s pk) then None else get_by_token t s)"
proof -
  have live: "sessions m = live_sessions s pk" using m by (simp add: live_sessions_def)
  have "t \<in> set (live_sessions s pk)" if "hm_get (by_token s) t = Some pk"
    using that store_wfD(2) [OF wf] by blast
  then show ?thesis
    unfolding live by (auto simp: get_by_token_def split: option.splits)
qed

lemma get_by_token_owner:
  assumes "store_wf s" "get_by_token t s = Some e" "t \<in> set (live_sessions s pk)"
  shows "client_pubkey e = pk"
  using assms live_session_unique_owner get_by_token_iff [OF assms(1)] by blast

lemma revoke_run:
  assumes "iteration_of iter" "store_wf s" "revoke_by_member_hash iter h s = (True, s')"
  obtains pk m where "hm_get (by_pubkey s) pk = Some m" "stored_hash m = h"
    "\<And>t. get_by_token t s' = (if t \<in> set (live_sessions s pk) then None else get_by_token t s)"
    "\<And>pk'. live_sessions s' pk' = (if pk' = pk then [] else live_sessions s pk')"
  using assms(1,2)
proof (cases rule: revoke_cases [where h = h])
  case none
  with assms(3) show thesis by simp
next
  case (some pk m)
  with assms(3) have "s' = s\<lparr>by_pubkey := hm_remove pk (by_pubkey s), by_token := fold hm_remove (sessions m) (by_token s)\<rparr>"
    by simp
  then show thesis
    using that [of pk m] some remove_member_get [OF assms(2) some(1)] remove_member_live by simp
qed

lemma revoke_complete:
  assumes it: "iteration_of iter" and wf: "store_wf s"
    and unique: "\<And>pk pk' m m'. hm_get (by_pubkey s) pk = Some m \<Longrightarrow> hm_get (by_pubkey s) pk' = Some m' \<Longrightarrow>
      stored_hash m = h \<Longrightarrow> stored_hash m' = h \<Longrightarrow> pk = pk'"
  shows "get_by_token t (snd (revoke_by_member_hash iter h s)) =
    (case get_by_token t s of None \<Rightarrow> None | Some e \<Rightarrow> if member_hash e = h then None else Some e)"
  using it wf
proof (cases rule: revoke_cases [where h = h])
  case none
  have "member_hash e \<noteq> h" if "get_by_token t s = Some e" for e
    using that none(2) get_by_token_iff [OF wf, of t e] by metis
  with none(1) show ?thesis by (auto split: option.splits)
next
  case (some pk m)
  have "t \<in> set (live_sessions s pk) \<longleftrightarrow> member_hash e = h" if "get_by_token t s = Some e" for e
    using that some(1,2) unique get_by_token_iff [OF wf, of t e] get_by_token_owner [OF wf that, of pk]
    by (metis option.inject)
  moreover have "get_by_token t s \<noteq> None" if "t \<in> set (live_sessions s pk)"
    using that contains_token_live [OF wf] get_by_token_contains [OF wf] by fastforce
  ultimately show ?thesis
    using some remove_member_get [OF wf some(1), of t] by (auto split: option.splits)
qed

subsection \<open>What enrolling, revoking and the replay guard promise\<close>

text \<open>
  C30: enrolling an identity under a fresh bearer succeeds; afterwards the bearer resolves to
  exactly the entry that was enrolled, and every bearer that was valid stays valid except,
  when the key already held \<open>DEVICE_CAP\<close> of them, the oldest one of that same key. In
  particular the bearers of every other key are untouched.
\<close>

theorem enroll_evicts_only_the_oldest:
  assumes wf: "store_wf s" and fresh: "\<not> contains_token (session_token e) s"
    and run: "member_insert e s = (ok, s')"
  shows "ok \<and> get_by_token (session_token e) s' = Some e \<and>
    (\<forall>t. contains_token t s' \<longleftrightarrow> t = session_token e \<or>
       contains_token t s \<and> \<not> (session_count (client_pubkey e) s = DEVICE_CAP \<and>
                              t = hd (live_sessions s (client_pubkey e))))"
proof -
  let ?old = "live_sessions s (client_pubkey e)"
  have s': "s' = snd (member_insert e s)" and ok using run member_insert_result [of e s] by simp_all
  have wf': "store_wf s'" unfolding s' by (rule member_insert_wf [OF wf fresh])
  have evict: "set (evicted_by e s) = (if length ?old = DEVICE_CAP then {hd ?old} else {})"
    using store_wfD(4) [OF wf, of "client_pubkey e"]
    by (cases ?old) (auto simp: evicted_by_old DEVICE_CAP_def)
  have "get_by_token (session_token e) s' = Some e"
    unfolding get_by_token_iff [OF wf'] unfolding s' by (simp add: member_insert_live member_insert_member)
  then show ?thesis
    using \<open>ok\<close> member_insert_contains [OF wf fresh] evict by (auto simp: s' session_count_live split: if_splits)
qed

definition demo_entry :: "string \<Rightarrow> member_entry" where
  "demo_entry t = \<lparr>client_pubkey = [4, 1], member_hash = [7], session_token = t, original_tx_id = ''tx''\<rparr>"

text \<open>A store whose key holds three bearers, so that the fourth enroll evicts.\<close>

definition full_store :: inner where
  "full_store = snd (member_insert (demo_entry ''c'') (snd (member_insert (demo_entry ''b'')
     (snd (member_insert (demo_entry ''a'') default_inner)))))"

lemma default_inner_wf: "store_wf default_inner"
  by (simp add: store_wf_def default_inner_def live_sessions_def)

lemma default_inner_empty:
  "live_sessions default_inner pk = []" "hm_get (by_pubkey default_inner) pk = None"
  "\<not> contains_token t default_inner" "seen_nonces default_inner = {}"
  by (simp_all add: live_sessions_def default_inner_def contains_token_def hm_contains_def)

lemma full_store_facts:
  "store_wf full_store" "\<not> contains_token ''d'' full_store" "contains_token ''a'' full_store"
  "session_count [4, 1] full_store = DEVICE_CAP" "hd (live_sessions full_store [4, 1]) = ''a''"
proof -
  show "store_wf full_store"
    unfolding full_store_def
    by (intro member_insert_wf default_inner_wf) code_simp+
qed code_simp+

theorem enroll_evicts_only_the_oldest_witness:
  "contains_token ''a'' full_store \<and> \<not> contains_token ''a'' (snd (member_insert (demo_entry ''d'') full_store))
   \<and> get_by_token ''d'' (snd (member_insert (demo_entry ''d'') full_store)) = Some (demo_entry ''d'')"
proof -
  have tok: "session_token (demo_entry ''d'') = ''d''" "client_pubkey (demo_entry ''d'') = [4, 1]"
    by (simp_all add: demo_entry_def)
  show ?thesis
    using enroll_evicts_only_the_oldest [OF full_store_facts(1), of "demo_entry ''d''"
        "fst (member_insert (demo_entry ''d'') full_store)" "snd (member_insert (demo_entry ''d'') full_store)"]
    by (simp add: tok full_store_facts)
qed

text \<open>
  C31: a revoke for a member hash answers true exactly when some key is stored under that hash.
  When it answers false the store is unchanged; when it answers true, one such key loses
  every bearer it holds, and every other bearer still resolves to the entry it resolved to.
\<close>

theorem revoke_drops_one_key:
  assumes it: "iteration_of iter" and wf: "store_wf s"
    and run: "revoke_by_member_hash iter h s = (found, s')"
  shows "(found \<longleftrightarrow> (\<exists>pk m. hm_get (by_pubkey s) pk = Some m \<and> stored_hash m = h)) \<and>
    (if found
     then \<exists>pk m. hm_get (by_pubkey s) pk = Some m \<and> stored_hash m = h \<and> session_count pk s' = 0 \<and>
            (\<forall>t. get_by_token t s' = (if t \<in> set (sessions m) then None else get_by_token t s))
     else s' = s)"
proof (cases found)
  case True
  with run have "revoke_by_member_hash iter h s = (True, s')" by simp
  from revoke_run [OF it wf this] obtain pk m where
    "hm_get (by_pubkey s) pk = Some m" "stored_hash m = h"
    "\<And>t. get_by_token t s' = (if t \<in> set (live_sessions s pk) then None else get_by_token t s)"
    "\<And>pk'. live_sessions s' pk' = (if pk' = pk then [] else live_sessions s pk')" by blast
  moreover from this have "sessions m = live_sessions s pk" by (simp add: live_sessions_def)
  ultimately show ?thesis
    using True revoke_true_iff [OF it wf, of h] run by (auto simp: session_count_live)
next
  case False
  have "s' = s"
    using it wf False run by (cases rule: revoke_cases [where h = h]) auto
  then show ?thesis using False run revoke_true_iff [OF it wf, of h] by simp
qed

theorem revoke_drops_one_key_witness:
  "fst (revoke_by_member_hash (\<lambda>m. m) [7] full_store) \<and>
   \<not> fst (revoke_by_member_hash (\<lambda>m. m) [8] full_store) \<and>
   snd (revoke_by_member_hash (\<lambda>m. m) [8] full_store) = full_store"
proof -
  have "fst (revoke_by_member_hash (\<lambda>m. m) [7] full_store)"
    "\<not> fst (revoke_by_member_hash (\<lambda>m. m) [8] full_store)" by code_simp+
  then show ?thesis
    using revoke_drops_one_key [OF iteration_id full_store_facts(1), of "[8]"]
    by (metis prod.collapse)
qed

text \<open>
  When no two keys are stored under one member hash, a revoke for that hash is complete: no
  bearer that still resolves carries the hash, whatever the map's iteration order, and every
  bearer of every other member still resolves as before.
\<close>

theorem revoke_is_complete:
  assumes it: "iteration_of iter" and wf: "store_wf s"
    and unique: "\<And>pk pk' m m'. hm_get (by_pubkey s) pk = Some m \<Longrightarrow> hm_get (by_pubkey s) pk' = Some m' \<Longrightarrow>
      stored_hash m = h \<Longrightarrow> stored_hash m' = h \<Longrightarrow> pk = pk'"
  shows "get_by_token t (snd (revoke_by_member_hash iter h s)) =
    (case get_by_token t s of None \<Rightarrow> None | Some e \<Rightarrow> if member_hash e = h then None else Some e)"
  by (rule revoke_complete [OF it wf]) (use unique in blast)

theorem revoke_is_complete_witness:
  "get_by_token ''b'' full_store = Some (demo_entry ''b'') \<and>
   get_by_token ''b'' (snd (revoke_by_member_hash (\<lambda>m. m) [7] full_store)) = None"
proof -
  have before: "get_by_token ''b'' full_store = Some (demo_entry ''b'')" by code_simp
  have keys: "hm_get (by_pubkey full_store) pk = Some m \<Longrightarrow> pk = [4, 1]" for pk m
    by (auto simp: full_store_def member_insert_member demo_entry_def default_inner_def split: if_splits)
  have "get_by_token ''b'' (snd (revoke_by_member_hash (\<lambda>m. m) [7] full_store)) =
    (case get_by_token ''b'' full_store of None \<Rightarrow> None | Some e \<Rightarrow> if member_hash e = [7] then None else Some e)"
    by (rule revoke_is_complete [OF iteration_id full_store_facts(1)]) (metis keys)
  then show ?thesis using before by (simp add: demo_entry_def)
qed

end
