(* ===== verification/Attest_Bucket.thy ===== *)
theory Attest_Bucket
  imports Member_Store
begin

text \<open>
  The per-key token bucket that \<^verbatim>\<open>MemberStore::allow_attestation\<close> keeps
  (\<^verbatim>\<open>src/src/state.rs\<close>), over any sequence of calls: a fresh key gets a burst of exactly
  \<open>ATTEST_BURST\<close> calls, a key that waits ten seconds is always served, and in between the
  number of calls served is bounded by the burst plus one per ten seconds, up to the
  rounding error of the \<^verbatim>\<open>f64\<close> arithmetic and the delay between reading the clock and taking the lock, which the bound states explicitly.
\<close>

definition bucket_ok :: "f64 \<Rightarrow> bool" where
  "bucket_ok t \<longleftrightarrow> 0 \<le> t \<and> t \<le> ATTEST_BURST \<and> f64_round t = t"

definition buckets_ok :: "inner \<Rightarrow> bool" where
  "buckets_ok s \<longleftrightarrow> (\<forall>pk t since. hm_get (attest_buckets s) pk = Some (t, since) \<longrightarrow> bucket_ok t)"

text \<open>The bucket a call for \<open>pk\<close> at time \<open>now\<close> finds: the stored one or a full one.\<close>

definition bucket_of :: "instant \<Rightarrow> pubkey \<Rightarrow> inner \<Rightarrow> f64 \<times> instant" where
  "bucket_of now pk s = (case hm_get (attest_buckets s) pk of None \<Rightarrow> (ATTEST_BURST, now) | Some b \<Rightarrow> b)"

text \<open>Calls for one key at the given times.\<close>

fun attest_run :: "pubkey \<Rightarrow> instant list \<Rightarrow> inner \<Rightarrow> bool list \<times> inner" where
  "attest_run pk [] s = ([], s)"
| "attest_run pk (now # nows) s =
     (let (ok, s1) = allow_attestation now pk s; (oks, s2) = attest_run pk nows s1 in (ok # oks, s2))"

subsection \<open>One call\<close>

lemma allow_attestation_eq:
  assumes "bucket_of now pk s = (t0, since)" "t = refilled t0 (now - since)"
  shows "allow_attestation now pk s =
    (1 \<le> t, s\<lparr>attest_buckets := hm_insert pk (if 1 \<le> t then f64_sub t 1 else t, now) (attest_buckets s)\<rparr>)"
  using assms by (simp add: allow_attestation_def bucket_of_def duration_since_def)

lemma allow_attestation_frame:
  "by_pubkey (snd (allow_attestation now pk s)) = by_pubkey s"
  "by_token (snd (allow_attestation now pk s)) = by_token s"
  "seen_nonces (snd (allow_attestation now pk s)) = seen_nonces s"
  "pk' \<noteq> pk \<Longrightarrow> hm_get (attest_buckets (snd (allow_attestation now pk s))) pk' = hm_get (attest_buckets s) pk'"
  by (cases "bucket_of now pk s"; simp add: allow_attestation_eq)+

lemma allow_attestation_bucket:
  assumes "bucket_of now pk s = (t0, since)" "t = refilled t0 (now - since)"
  shows "bucket_of now' pk (snd (allow_attestation now pk s)) = (if 1 \<le> t then f64_sub t 1 else t, now)"
  by (simp add: allow_attestation_eq [OF assms] bucket_of_def)

lemma bucket_of_ok: "buckets_ok s \<Longrightarrow> bucket_of now pk s = (t, since) \<Longrightarrow> bucket_ok t"
  by (auto simp: buckets_ok_def bucket_of_def bucket_ok_def ATTEST_BURST_def f64_round_consts split: option.splits)

lemma as_secs_f64_nonneg: "0 \<le> as_secs_f64 n"
  by (simp add: as_secs_f64_def f64_add_def f64_div_def f64_of_nat_def f64_round_nonneg)

lemma f64_tenth_pos: "0 < f64_tenth"
  by (simp add: f64_round_consts)

lemma refilled_ok: "bucket_ok t \<Longrightarrow> bucket_ok (refilled t d)"
proof -
  assume "bucket_ok t"
  then have "0 \<le> t" by (simp add: bucket_ok_def)
  then have "0 \<le> t + f64_mul (as_secs_f64 d) ATTEST_REFILL_PER_SEC"
    using as_secs_f64_nonneg [of d] f64_tenth_pos
    by (simp add: f64_mul_def ATTEST_REFILL_PER_SEC_def f64_round_nonneg)
  then show ?thesis
    using f64_round_nonneg f64_round_idem
    by (auto simp: bucket_ok_def refilled_def f64_add_def min_def ATTEST_BURST_def f64_round_consts)
qed

lemma take_token_ok: "bucket_ok t \<Longrightarrow> 1 \<le> t \<Longrightarrow> bucket_ok (f64_sub t 1)"
  using f64_round_mono [of "t - 1" 5] f64_round_nonneg [of "t - 1"] f64_round_idem [of "t - 1"]
  by (auto simp: bucket_ok_def f64_sub_def ATTEST_BURST_def f64_round_consts)

lemma allow_attestation_ok:
  assumes "buckets_ok s"
  shows "buckets_ok (snd (allow_attestation now pk s))"
proof -
  obtain t0 since where b: "bucket_of now pk s = (t0, since)" by (cases "bucket_of now pk s")
  have "bucket_ok (refilled t0 (now - since))"
    using bucket_of_ok [OF assms b] by (rule refilled_ok)
  then show ?thesis
    using assms take_token_ok by (auto simp: allow_attestation_eq [OF b refl] buckets_ok_def split: if_splits)
qed

lemma attest_run_ok: "buckets_ok s \<Longrightarrow> buckets_ok (snd (attest_run pk nows s))"
  by (induction nows arbitrary: s) (auto simp: Let_def case_prod_unfold allow_attestation_ok)

subsection \<open>Waiting ten seconds\<close>

lemma as_secs_f64_ge: "10 * 10 ^ 9 \<le> d \<Longrightarrow> 10 \<le> as_secs_f64 d"
proof -
  assume "10 * 10 ^ 9 \<le> d"
  then have "10 \<le> d div 10 ^ 9" by simp
  then have "(10 :: rat) \<le> of_nat (d div 10 ^ 9)"
    using of_nat_le_iff [of 10 "d div 10 ^ 9", where ?'a = rat] by simp
  then have "10 \<le> f64_of_nat (d div 10 ^ 9)"
    using f64_round_mono [of 10 "of_nat (d div 10 ^ 9)"] by (simp add: f64_of_nat_def f64_round_consts)
  moreover have "0 \<le> f64_div (f64_of_nat (d mod 10 ^ 9)) (f64_of_nat (10 ^ 9))"
    by (simp add: f64_div_def f64_of_nat_def f64_round_nonneg)
  ultimately show ?thesis
    using f64_round_mono [of 10 "f64_of_nat (d div 10 ^ 9) + f64_div (f64_of_nat (d mod 10 ^ 9)) (f64_of_nat (10 ^ 9))"]
    by (simp add: as_secs_f64_def f64_add_def f64_round_consts)
qed

lemma refilled_after_ten_seconds:
  assumes "bucket_ok t" "10 * 10 ^ 9 \<le> d"
  shows "1 \<le> refilled t d"
proof -
  have "10 * f64_tenth \<le> as_secs_f64 d * f64_tenth"
    using as_secs_f64_ge [OF assms(2)] f64_tenth_pos by (simp add: mult_right_mono)
  then have "1 \<le> f64_mul (as_secs_f64 d) f64_tenth"
    using f64_round_mono [of "10 * f64_tenth"] f64_tenth_pos by (simp add: f64_mul_def f64_round_consts(4))
  then have "1 \<le> t + f64_mul (as_secs_f64 d) f64_tenth"
    using assms(1) by (simp add: bucket_ok_def)
  then show ?thesis
    using f64_round_mono [of 1 "t + f64_mul (as_secs_f64 d) f64_tenth"]
    by (simp add: refilled_def f64_add_def ATTEST_REFILL_PER_SEC_def ATTEST_BURST_def f64_round_consts)
qed

subsection \<open>The rate\<close>

text \<open>
  Rounding up costs at most the factor \<open>f64_factor\<close> and the absolute \<open>f64_tiny\<close> (the smallest
  subnormals, generously). \<open>attest_rate\<close> is one token per ten seconds, in tokens per nanosecond,
  with the relative error of the six rounded operations of a refill.
\<close>

definition f64_factor :: rat where "f64_factor = 1 + 1 / 2 ^ 53"
definition f64_tiny :: rat where "f64_tiny = 1 / 2 ^ 60"
definition attest_rate :: rat where "attest_rate = (1 + 1 / 2 ^ 50) / 10 ^ 10"

lemma round_upper:
  assumes "0 \<le> x" "x \<le> y"
  shows "f64_round x \<le> y * f64_factor + f64_tiny"
proof -
  have "(1 :: rat) / 2 ^ 1075 \<le> f64_tiny"
    unfolding f64_tiny_def by (intro divide_left_mono power_increasing) simp_all
  moreover have "x * f64_factor \<le> y * f64_factor"
    using assms(2) by (intro mult_right_mono) (simp_all add: f64_factor_def)
  moreover have "x * f64_factor = x + x / 2 ^ 53" by (simp add: f64_factor_def algebra_simps)
  ultimately show ?thesis using f64_round_upper [OF assms(1)] by linarith
qed

lemma factor_consts:
  "0 < f64_tiny" "1 \<le> f64_factor" "f64_tiny / 10 ^ 9 * f64_factor + f64_tiny \<le> 2 * f64_tiny"
  "3 * f64_tiny * f64_factor + f64_tiny \<le> 5 * f64_tiny" "f64_tenth \<le> f64_factor / 10"
  "f64_factor * f64_factor * f64_factor \<le> 1 + 4 / 2 ^ 53"
  "(1 + 4 / 2 ^ 53) * (f64_factor * f64_factor * f64_factor) / 10 ^ 10 \<le> attest_rate"
  "5 * f64_tiny * (f64_factor * f64_factor * f64_factor / 10) + f64_tiny * f64_factor + f64_tiny \<le> 1 / 2 ^ 53"
  "f64_factor - 1 = 1 / 2 ^ 53"
  unfolding f64_factor_def f64_tiny_def attest_rate_def f64_round_consts(5) by simp_all

lemma as_secs_f64_upper: "as_secs_f64 d \<le> of_nat d / 10 ^ 9 * (1 + 4 / 2 ^ 53) + 5 * f64_tiny"
proof -
  let ?K = f64_factor and ?e = f64_tiny
  define q m :: rat where "q = of_nat (d div 10 ^ 9)" and "m = of_nat (d mod 10 ^ 9)"
  define a b c where "a = f64_round q" and "b = f64_round m" and "c = f64_round (b / 10 ^ 9)"
  define S where "S = q + m / 10 ^ 9"
  have pos: "0 \<le> q" "0 \<le> m" "0 \<le> a" "0 \<le> b" "0 \<le> c" "0 \<le> S"
    by (simp_all add: q_def m_def a_def b_def c_def S_def f64_round_nonneg)
  have "f64_round 1000000000 = 1000000000" by code_simp
  then have giga: "f64_of_nat (10 ^ 9) = 10 ^ 9" by (simp add: f64_of_nat_def)
  have secs: "as_secs_f64 d = f64_round (a + c)"
    unfolding as_secs_f64_def f64_add_def f64_div_def giga unfolding f64_of_nat_def a_def b_def c_def q_def m_def ..
  have "of_nat d = of_nat (d div 10 ^ 9 * 10 ^ 9 + d mod 10 ^ 9)"
    by (rule arg_cong [OF div_mult_mod_eq [symmetric]])
  then have "of_nat d = q * 10 ^ 9 + m"
    unfolding q_def m_def of_nat_add of_nat_mult of_nat_power of_nat_numeral .
  then have d: "of_nat d / 10 ^ 9 = S" by (simp add: S_def field_simps)
  have "a \<le> q * ?K + ?e" "b \<le> m * ?K + ?e"
    unfolding a_def b_def using round_upper pos by auto
  have "q * ?K \<le> q * (?K * ?K)"
    using pos factor_consts(2) by (intro mult_left_mono) auto
  with \<open>a \<le> _\<close> have a: "a \<le> q * (?K * ?K) + ?e" by linarith
  have "c \<le> (m * ?K + ?e) / 10 ^ 9 * ?K + ?e"
    unfolding c_def using pos \<open>b \<le> _\<close> by (intro round_upper divide_right_mono) auto
  also have "\<dots> = m / 10 ^ 9 * (?K * ?K) + (?e / 10 ^ 9 * ?K + ?e)" by (simp add: algebra_simps add_divide_distrib)
  finally have c: "c \<le> m / 10 ^ 9 * (?K * ?K) + 2 * ?e" using factor_consts(3) by linarith
  have "a + c \<le> S * (?K * ?K) + 3 * ?e"
    unfolding S_def distrib_right using a c by linarith
  then have "f64_round (a + c) \<le> (S * (?K * ?K) + 3 * ?e) * ?K + ?e"
    using pos by (intro round_upper) auto
  also have "\<dots> = S * (?K * ?K * ?K) + (3 * ?e * ?K + ?e)" by (simp add: algebra_simps)
  also have "\<dots> \<le> S * (1 + 4 / 2 ^ 53) + 5 * ?e"
    using factor_consts(4,6) pos by (intro add_mono mult_left_mono) auto
  finally show ?thesis unfolding secs d .
qed

lemma refilled_upper:
  assumes "bucket_ok t"
  shows "refilled t d \<le> t + of_nat d * attest_rate + 6 / 2 ^ 53"
proof -
  let ?K = f64_factor and ?e = f64_tiny
  define e where "e = as_secs_f64 d"
  define x where "x = f64_round (e * f64_tenth)"
  define S where "S = of_nat d / (10 ^ 9 :: rat)"
  have t: "0 \<le> t" "t \<le> 5" using assms by (simp_all add: bucket_ok_def ATTEST_BURST_def)
  have e: "0 \<le> e" "e \<le> S * (1 + 4 / 2 ^ 53) + 5 * ?e"
    unfolding e_def S_def by (rule as_secs_f64_nonneg as_secs_f64_upper)+
  have "e * f64_tenth \<le> (S * (1 + 4 / 2 ^ 53) + 5 * ?e) * (?K / 10)"
    using e factor_consts(5) f64_tenth_pos by (intro mult_mono) auto
  then have x: "0 \<le> x" "x \<le> (S * (1 + 4 / 2 ^ 53) + 5 * ?e) * (?K / 10) * ?K + ?e"
    unfolding x_def using e(1) f64_tenth_pos
    by (simp add: f64_round_nonneg, intro round_upper mult_nonneg_nonneg) auto
  have "refilled t d \<le> f64_round (t + x)"
    by (simp add: refilled_def f64_add_def f64_mul_def ATTEST_REFILL_PER_SEC_def x_def e_def)
  also have "\<dots> \<le> (t + ((S * (1 + 4 / 2 ^ 53) + 5 * ?e) * (?K / 10) * ?K + ?e)) * ?K + ?e"
    using t x by (intro round_upper) auto
  also have "\<dots> = t + t * (?K - 1) + of_nat d * ((1 + 4 / 2 ^ 53) * (?K * ?K * ?K) / 10 ^ 10)
      + (5 * ?e * (?K * ?K * ?K / 10) + ?e * ?K + ?e)"
    unfolding S_def by (simp add: field_simps)
  also have "\<dots> \<le> t + 5 * (?K - 1) + of_nat d * attest_rate + 1 / 2 ^ 53"
    using t factor_consts(2,7,8) by (intro add_mono mult_left_mono mult_right_mono order_refl) auto
  finally show ?thesis unfolding factor_consts(9) by simp
qed

lemma take_token_upper:
  assumes "bucket_ok t" "1 \<le> t"
  shows "f64_sub t 1 \<le> t - 1 + 5 / 2 ^ 53"
proof -
  have t: "0 \<le> t - 1" "t - 1 \<le> 4" using assms by (simp_all add: bucket_ok_def ATTEST_BURST_def)
  have "f64_round (t - 1) \<le> (t - 1) * f64_factor + f64_tiny" using t by (intro round_upper) auto
  also have "\<dots> = t - 1 + (t - 1) * (f64_factor - 1) + f64_tiny" by (simp add: algebra_simps)
  also have "\<dots> \<le> t - 1 + 4 * (f64_factor - 1) + f64_tiny"
    using t factor_consts(2) by (intro add_mono mult_right_mono order_refl) auto
  also have "\<dots> \<le> t - 1 + 5 / 2 ^ 53" by (simp add: factor_consts(9) f64_tiny_def)
  finally show ?thesis by (simp add: f64_sub_def)
qed

text \<open>One call moves at most what it refills and takes a whole token when it is served.\<close>

lemma attest_step:
  assumes "buckets_ok s" "bucket_of now pk s = (t, since)" "allow_attestation now pk s = (ok, s')"
  obtains t' where "hm_get (attest_buckets s') pk = Some (t', now)"
    "t' + of_bool ok \<le> t + of_nat (now - since) * attest_rate + 1 / 2 ^ 49"
proof -
  let ?r = "refilled t (now - since)"
  have ok: "bucket_ok t" "bucket_ok ?r" using assms(1,2) bucket_of_ok refilled_ok by blast+
  have step: "ok = (1 \<le> ?r)"
    "hm_get (attest_buckets s') pk = Some (if 1 \<le> ?r then f64_sub ?r 1 else ?r, now)"
    using assms(3) unfolding allow_attestation_eq [OF assms(2) refl] by auto
  have "(if 1 \<le> ?r then f64_sub ?r 1 else ?r) + of_bool ok \<le> ?r + 5 / 2 ^ 53"
    using take_token_upper [OF ok(2)] step(1) by (cases ok) (simp_all add: algebra_simps)
  then show thesis
    using that [OF step(2)] refilled_upper [OF ok(1), of "now - since"] by simp
qed

text \<open>
  The program reads the clock before it takes the lock, so the times of successive calls need not be in order. What refills the
  bucket is the time the clock moves forward between them; a time that goes back makes the next step forward longer.
\<close>

fun forward :: "instant \<Rightarrow> instant list \<Rightarrow> nat" where
  "forward since [] = 0"
| "forward since (now # nows) = (now - since) + forward now nows"

lemma attest_run_bound:
  assumes "buckets_ok s" "hm_get (attest_buckets s) pk = Some (t, since)" "attest_run pk nows s = (oks, s')"
  shows "of_nat (count_list oks True) \<le> t + of_nat (forward since nows) * attest_rate + of_nat (length nows) * (1 / 2 ^ 49)"
  using assms
proof (induction nows arbitrary: s t since oks)
  case Nil
  then show ?case by (auto simp: buckets_ok_def bucket_ok_def)
next
  case (Cons now nows)
  obtain ok s1 where a: "allow_attestation now pk s = (ok, s1)" by fastforce
  obtain oks' where r: "attest_run pk nows s1 = (oks', s')" and oks: "oks = ok # oks'"
    using Cons.prems(3) by (auto simp: a split: prod.splits)
  have b: "bucket_of now pk s = (t, since)" using Cons.prems(2) by (simp add: bucket_of_def)
  obtain t' where t': "hm_get (attest_buckets s1) pk = Some (t', now)"
    "t' + of_bool ok \<le> t + of_nat (now - since) * attest_rate + 1 / 2 ^ 49"
    using attest_step [OF Cons.prems(1) b a] .
  have s1: "buckets_ok s1" using allow_attestation_ok [OF Cons.prems(1), of now pk] a by simp
  have "of_bool ok + of_nat (count_list oks' True) \<le>
      t + of_nat (forward since (now # nows)) * attest_rate + (1 + of_nat (length nows)) * (1 / 2 ^ 49)"
    using Cons.IH [OF s1 t'(1) r] t'(2) by (simp add: algebra_simps add_divide_distrib)
  moreover have "(of_nat (count_list oks True) :: rat) = of_bool ok + of_nat (count_list oks' True)"
    using oks by simp
  ultimately show ?case by simp
qed

text \<open>A call: when it read the clock, and when it got the lock.\<close>

definition calls_ok :: "nat \<Rightarrow> (instant \<times> instant) list \<Rightarrow> bool" where
  "calls_ok delay calls \<longleftrightarrow>
     sorted (map snd calls) \<and> list_all (\<lambda>(clock, lock). clock \<le> lock \<and> lock \<le> clock + delay) calls"

lemma forward_delayed:
  assumes "calls_ok delay (c # calls)"
  shows "forward (fst c) (map fst calls) \<le> snd (last (c # calls)) - snd c + length calls * delay"
  using assms
proof (induction calls arbitrary: c)
  case (Cons d calls)
  then have "calls_ok delay (d # calls)" by (simp add: calls_ok_def)
  note IH = Cons.IH [OF this]
  have "snd d \<le> snd (last (d # calls))"
    using Cons.prems last_in_set [of "d # calls"] by (auto simp: calls_ok_def split: if_splits)
  moreover have "fst d - fst c \<le> (snd d - snd c) + delay" "snd c \<le> snd d"
    using Cons.prems by (auto simp: calls_ok_def case_prod_unfold)
  ultimately show ?case using IH by simp
qed simp

subsection \<open>Bursts\<close>

lemma small_round: "k \<le> 5 \<Longrightarrow> f64_round (of_nat k) = of_nat k"
proof -
  assume "k \<le> 5"
  then have "k \<in> {0, 1, 2, 3, 4, 5}" by auto
  moreover have "f64_round 2 = 2" "f64_round 3 = 3" "f64_round 4 = 4" by code_simp+
  ultimately show ?thesis by (auto simp: f64_round_consts)
qed

lemma refilled_now: "k \<le> 5 \<Longrightarrow> refilled (of_nat k) 0 = of_nat k"
proof -
  assume "k \<le> 5"
  then have "(of_nat k :: rat) \<le> 5" using of_nat_le_iff [of k 5, where ?'a = rat] by simp
  then show ?thesis
    using small_round [OF \<open>k \<le> 5\<close>]
    by (simp add: refilled_def as_secs_f64_def f64_add_def f64_mul_def f64_div_def f64_of_nat_def ATTEST_BURST_def)
qed

lemma attest_burst:
  assumes "bucket_of now pk s = (of_nat k, now)" "k \<le> 5"
  shows "fst (attest_run pk (replicate n now) s) = replicate (min n k) True @ replicate (n - k) False"
  using assms
proof (induction n arbitrary: k s)
  case (Suc n)
  let ?s = "snd (allow_attestation now pk s)"
  have r: "refilled (of_nat k) (now - now) = of_nat k" using refilled_now [OF Suc.prems(2)] by simp
  have step: "fst (allow_attestation now pk s) \<longleftrightarrow> 0 < k"
    unfolding allow_attestation_eq [OF Suc.prems(1) refl] r by auto
  have "f64_sub (of_nat k) 1 = of_nat (k - 1)" if "0 < k"
    using that small_round [of "k - 1"] Suc.prems(2) by (simp add: f64_sub_def of_nat_diff)
  then have "bucket_of now pk ?s = (of_nat (k - 1), now)"
    unfolding allow_attestation_bucket [OF Suc.prems(1) refl] r by (cases k) auto
  from Suc.IH [OF this] show ?case
    using Suc.prems(2) step by (cases k) (auto simp: Let_def case_prod_unfold)
qed simp

subsection \<open>What the bucket promises\<close>

text \<open>
  C28: a key that has never asked for an attestation and asks \<open>n\<close> times in one instant is served
  exactly the first five times; every further request of that instant is refused.
\<close>

theorem attestation_burst_is_five:
  assumes "hm_get (attest_buckets s) pk = None"
  shows "fst (attest_run pk (replicate n now) s) = replicate (min n 5) True @ replicate (n - 5) False"
proof (rule attest_burst)
  show "bucket_of now pk s = (of_nat 5, now)"
    using assms by (simp add: bucket_of_def ATTEST_BURST_def)
qed simp

theorem attestation_burst_is_five_witness:
  "fst (attest_run [4] (replicate 7 1000) default_inner) =
    [True, True, True, True, True, False, False]"
proof -
  have "hm_get (attest_buckets default_inner) [4] = None" by (simp add: default_inner_def)
  from attestation_burst_is_five [OF this, of 7 1000] show ?thesis by (simp add: numeral_eq_Suc)
qed

lemma served_after_ten_seconds:
  assumes "buckets_ok s" "hm_get (attest_buckets s) pk = Some (t, since)" "since + 10 * 10 ^ 9 \<le> now"
  shows "fst (allow_attestation now pk s)"
proof -
  have b: "bucket_of now pk s = (t, since)" using assms(2) by (simp add: bucket_of_def)
  have "1 \<le> refilled t (now - since)"
    using refilled_after_ten_seconds [OF bucket_of_ok [OF assms(1) b]] assms(3) by simp
  then show ?thesis by (simp add: allow_attestation_eq [OF b refl])
qed

text \<open>
  C24: no key is starved: ten seconds after its last request, served or refused, a key's next
  request is served, whatever the bucket held. The bucket arithmetic is the program's \<^verbatim>\<open>f64\<close>
  arithmetic, rounding included, so ten additions of the rounded \<open>0.1\<close> cannot fall short.
\<close>

theorem attestation_served_after_ten_seconds:
  assumes "buckets_ok s" "hm_get (attest_buckets s) pk = Some (t, since)" "since + 10 * 10 ^ 9 \<le> now"
  shows "fst (allow_attestation now pk s)"
  using assms by (rule served_after_ten_seconds)

definition drained_store :: inner where
  "drained_store = default_inner\<lparr>attest_buckets := [([4], (0, 0))]\<rparr>"

lemma drained_store_facts: "buckets_ok drained_store" "hm_get (attest_buckets drained_store) [4] = Some (0, 0)"
  by (auto simp: drained_store_def buckets_ok_def bucket_ok_def hm_get_def ATTEST_BURST_def)

theorem attestation_served_after_ten_seconds_witness:
  "fst (allow_attestation 10000000000 [4] drained_store)"
  using attestation_served_after_ten_seconds [OF drained_store_facts, of 10000000000] by simp

text \<open>
  C22: whatever the key's history, concurrent requests of one key are served at most \<open>5\<close> times plus once per ten seconds. Each call
  reads the clock, then waits for the lock for at most \<open>delay\<close>; calls are in the order in which they get it. The bound counts the time between
  the first and the last lock, and \<open>delay\<close> once per further call, because a call that reads the clock before another but locks after it makes the
  interval between the two count twice. The rounding of the \<^verbatim>\<open>f64\<close> arithmetic adds at most a relative error of \<open>2 ^ -50\<close> on the rate and
  \<open>2 ^ -49\<close> of a token per request.
\<close>

theorem attestation_rate_bound:
  assumes ok: "buckets_ok s" and calls: "calls_ok delay (c # calls)"
    and run: "attest_run pk (map fst (c # calls)) s = (oks, s')"
  shows "(of_nat (count_list oks True) :: rat) \<le>
    5 + of_nat (snd (last (c # calls)) - snd c + length calls * delay) / 10 ^ 10 * (1 + 1 / 2 ^ 50) +
    of_nat (length (c # calls)) / 2 ^ 49"
proof -
  let ?now = "fst c" and ?nows = "map fst calls"
  obtain t since where b: "bucket_of ?now pk s = (t, since)" by (cases "bucket_of ?now pk s")
  let ?r = "refilled t (?now - since)"
  obtain ok1 s1 where a: "allow_attestation ?now pk s = (ok1, s1)" by fastforce
  obtain oks1 where r: "attest_run pk ?nows s1 = (oks1, s')" and oks: "oks = ok1 # oks1"
    using run by (auto simp: a split: prod.splits)
  have r_ok: "bucket_ok ?r" using refilled_ok bucket_of_ok [OF ok b] by blast
  define t1 where "t1 = (if 1 \<le> ?r then f64_sub ?r 1 else ?r)"
  have s1: "hm_get (attest_buckets s1) pk = Some (t1, ?now)" "ok1 = (1 \<le> ?r)"
    using a unfolding allow_attestation_eq [OF b refl] t1_def by auto
  have "t1 + of_bool ok1 \<le> ?r + 5 / 2 ^ 53"
    using take_token_upper [OF r_ok] s1(2) by (cases ok1) (simp_all add: t1_def algebra_simps)
  moreover have "?r \<le> 5" using r_ok by (simp add: bucket_ok_def ATTEST_BURST_def)
  moreover have "buckets_ok s1" using allow_attestation_ok [OF ok, of ?now pk] a by simp
  note attest_run_bound [OF this s1(1) r]
  moreover have "(5 :: rat) / 2 ^ 53 \<le> 1 / 2 ^ 49" by simp
  moreover let ?d = "snd (last (c # calls)) - snd c + length calls * delay"
  have "(of_nat (forward ?now ?nows) :: rat) \<le> of_nat ?d" using forward_delayed [OF calls] by (simp only: of_nat_le_iff)
  then have "of_nat (forward ?now ?nows) * attest_rate \<le> of_nat ?d * attest_rate"
    by (rule mult_right_mono) (simp add: attest_rate_def)
  ultimately have "of_bool ok1 + of_nat (count_list oks1 True) \<le> 5 + of_nat ?d * attest_rate + (1 + of_nat (length ?nows)) * (1 / 2 ^ 49)"
    unfolding distrib_right by linarith
  moreover have "(of_nat (count_list oks True) :: rat) = of_bool ok1 + of_nat (count_list oks1 True)"
    using oks by simp
  moreover have "D * attest_rate = D / 10 ^ 10 * (1 + 1 / 2 ^ 50)" for D by (simp add: attest_rate_def)
  ultimately show ?thesis by (simp only: length_Cons length_map of_nat_Suc times_divide_eq_right mult_1_right)
qed

theorem attestation_rate_bound_witness:
  "(of_nat (count_list (fst (attest_run [4] [0, 20000000000] drained_store)) True) :: rat) \<le>
    5 + of_nat (20000000003 - 2 + length [(20000000000 :: nat, 20000000003 :: nat)] * 5) / 10 ^ 10 * (1 + 1 / 2 ^ 50) + of_nat 2 / 2 ^ 49"
proof -
  have "calls_ok 5 [(0, 2), (20000000000, 20000000003)]" by (simp add: calls_ok_def)
  moreover have "attest_run [4] (map fst [(0, 2 :: nat), (20000000000, 20000000003)]) drained_store =
    (fst (attest_run [4] [0, 20000000000] drained_store), snd (attest_run [4] [0, 20000000000] drained_store))"
    by simp
  ultimately show ?thesis
    by (rule attestation_rate_bound [OF drained_store_facts(1), THEN order_trans]) simp
qed

lemma attest_run_append:
  "attest_run pk (xs @ ys) s =
     (let (oks, s1) = attest_run pk xs s; (oks', s2) = attest_run pk ys s1 in (oks @ oks', s2))"
  by (induction xs arbitrary: s) (simp_all add: Let_def case_prod_unfold)

lemma allow_attestation_stored: "\<exists>t. hm_get (attest_buckets (snd (allow_attestation now pk s))) pk = Some (t, now)"
  by (cases "bucket_of now pk s") (simp add: allow_attestation_eq)

lemma refilled_ten_seconds: "refilled 0 (10 ^ 10) = 1"
  by (simp add: refilled_def as_secs_f64_def f64_add_def f64_mul_def f64_div_def f64_of_nat_def ATTEST_BURST_def
      ATTEST_REFILL_PER_SEC_def f64_round_consts(1-4))

lemma attest_burst_bucket:
  assumes "bucket_of now pk s = (of_nat k, now)" "k \<le> 5"
  shows "bucket_of now pk (snd (attest_run pk (replicate n now) s)) = (of_nat (k - n), now)"
  using assms
proof (induction n arbitrary: k s)
  case (Suc n)
  let ?s = "snd (allow_attestation now pk s)"
  have r: "refilled (of_nat k) (now - now) = of_nat k" using refilled_now [OF Suc.prems(2)] by simp
  have "f64_sub (of_nat k) 1 = of_nat (k - 1)" if "0 < k"
    using that small_round [of "k - 1"] Suc.prems(2) by (simp add: f64_sub_def of_nat_diff)
  then have "bucket_of now pk ?s = (of_nat (k - 1), now)"
    unfolding allow_attestation_bucket [OF Suc.prems(1) refl] r by (cases k) auto
  from Suc.IH [OF this] show ?case
    using Suc.prems(2) by (simp add: Let_def case_prod_unfold)
qed simp

lemma race_round:
  assumes "bucket_of (t + 10 ^ 10) pk s = (0, t)"
  shows "fst (attest_run pk (concat (replicate n [t + 10 ^ 10, t])) s) = concat (replicate n [True, False])"
  using assms
proof (induction n arbitrary: s)
  case (Suc n)
  let ?s1 = "snd (allow_attestation (t + 10 ^ 10) pk s)" let ?s2 = "snd (allow_attestation t pk ?s1)"
  have r: "refilled 0 (t + 10 ^ 10 - t) = 1" using refilled_ten_seconds by simp
  have r0: "refilled 0 (t - (t + 10 ^ 10)) = 0" using refilled_now [of 0] by simp
  have one: "fst (allow_attestation (t + 10 ^ 10) pk s)"
    unfolding allow_attestation_eq [OF Suc.prems refl] r by simp
  have b1: "bucket_of t pk ?s1 = (0, t + 10 ^ 10)"
    unfolding allow_attestation_bucket [OF Suc.prems refl] r by (simp add: f64_sub_def f64_round_def)
  have two: "\<not> fst (allow_attestation t pk ?s1)"
    unfolding allow_attestation_eq [OF b1 refl] r0 by simp
  have "bucket_of (t + 10 ^ 10) pk ?s2 = (0, t)"
    unfolding allow_attestation_bucket [OF b1 refl] r0 by simp
  from Suc.IH [OF this] one two show ?case by (simp add: Let_def case_prod_unfold)
qed simp

lemma attest_run_stored:
  "nows \<noteq> [] \<Longrightarrow> \<exists>b. hm_get (attest_buckets (snd (attest_run pk nows s))) pk = Some b"
proof (induction nows arbitrary: s)
  case (Cons now nows)
  then show ?case
    using allow_attestation_stored [of now pk s] by (cases "nows = []") (auto simp: Let_def case_prod_unfold)
qed simp

lemma bucket_of_stored: "hm_get (attest_buckets s) pk = Some b \<Longrightarrow> bucket_of now pk s = b"
  by (simp add: bucket_of_def)

text \<open>
  C23: the term for the delay in the rate bound is needed, and a key can exploit it without limit. Requests read the clock before they
  take the lock. When readings of the beginning and of the end of ten seconds reach the lock in alternation, each late reading refills a token
  and each early one only moves the bucket's time back: after the burst of five, every second request is served, for any number \<open>n\<close> of
  rounds, so \<open>5 + n\<close> requests are served on clock readings that span ten seconds.
\<close>

theorem attestation_clock_race:
  assumes "hm_get (attest_buckets s) pk = None"
  shows "fst (attest_run pk (replicate 5 t @ concat (replicate n [t + 10 ^ 10, t])) s) =
    replicate 5 True @ concat (replicate n [True, False])"
proof -
  let ?s = "snd (attest_run pk (replicate 5 t) s)"
  have full: "bucket_of t pk s = (of_nat 5, t)" using assms by (simp add: bucket_of_def ATTEST_BURST_def)
  have "replicate 5 t \<noteq> []" by simp
  from attest_run_stored [OF this] obtain b where b: "hm_get (attest_buckets ?s) pk = Some b" by blast
  have "b = (0, t)" using attest_burst_bucket [OF full, of 5] bucket_of_stored [OF b, of t] by simp
  then have "bucket_of (t + 10 ^ 10) pk ?s = (0, t)" using bucket_of_stored [OF b] by simp
  from race_round [OF this, of n] show ?thesis
    using attest_burst [OF full, of 5] by (simp add: attest_run_append Let_def case_prod_unfold)
qed

theorem attestation_clock_race_witness:
  "fst (attest_run [4] (replicate 5 0 @ [10 ^ 10, 0, 10 ^ 10, 0]) default_inner) =
    replicate 5 True @ [True, False, True, False]"
proof -
  have "hm_get (attest_buckets default_inner) [4] = None" by (simp add: default_inner_def)
  from attestation_clock_race [OF this, of 0 2] show ?thesis by (simp add: numeral_2_eq_2)
qed

end
