(* ===== verification/Store_Machine.thy ===== *)
theory Store_Machine
  imports Attest_Bucket
begin

text \<open>
  The member store as a shared object: requests are served concurrently, each store method
  runs under the lock (\<^verbatim>\<open>read_guard\<close>, \<^verbatim>\<open>write_guard\<close> in \<^verbatim>\<open>src/src/state.rs\<close>), so an execution
  is an interleaving of whole method calls. \<open>store_op\<close> names a call, \<open>store_exec\<close> runs it, and
  \<open>store_step\<close> is one call of an execution; the only assumption on the callers is that a bearer
  being minted is not one already live (it is 256 bits of fresh CSPRNG output).

  The store is shown to refine the device-slot table: one slot per key, with its hash, its
  transaction and its bearers in order of enrolment. Each method call, the readers included, is a
  step of the table under the same label (the call and the answer it gives), so every sequence of
  calls and answers an execution of the store shows is one the table allows.
\<close>

datatype store_op =
    Insert member_entry
  | Revoke member_hash
  | Note_Nonce string
  | Allow_Attestation instant pubkey

fun store_exec :: "(pubkey, member) iteration \<Rightarrow> store_op \<Rightarrow> inner \<Rightarrow> inner" where
  "store_exec iter (Insert e) s = snd (member_insert e s)"
| "store_exec iter (Revoke h) s = snd (revoke_by_member_hash iter h s)"
| "store_exec iter (Note_Nonce n) s = snd (note_nonce n s)"
| "store_exec iter (Allow_Attestation now pk) s = snd (allow_attestation now pk s)"

fun mints :: "store_op \<Rightarrow> string option" where
  "mints (Insert e) = Some (session_token e)"
| "mints _ = None"

definition admissible :: "inner \<Rightarrow> store_op \<Rightarrow> bool" where
  "admissible s op \<longleftrightarrow> (\<forall>t. mints op = Some t \<longrightarrow> \<not> contains_token t s)"

lemma admissible_simps [simp]:
  "admissible s (Insert e) \<longleftrightarrow> \<not> contains_token (session_token e) s"
  "admissible s (Revoke h)" "admissible s (Note_Nonce n)" "admissible s (Allow_Attestation now pk)"
  by (simp_all add: admissible_def)

inductive store_step :: "(pubkey, member) iteration \<Rightarrow> inner \<Rightarrow> inner \<Rightarrow> bool" for iter where
  store_step: "admissible s op \<Longrightarrow> store_step iter s (store_exec iter op s)"

inductive_cases store_stepE: "store_step iter s t"

definition store_inv :: "inner \<Rightarrow> bool" where
  "store_inv s \<longleftrightarrow> store_wf s \<and> buckets_ok s"

subsection \<open>The invariant is inductive\<close>

lemma store_wf_frame:
  "by_pubkey s' = by_pubkey s \<Longrightarrow> by_token s' = by_token s \<Longrightarrow> store_wf s' \<longleftrightarrow> store_wf s"
  by (simp add: store_wf_def live_sessions_def)

lemma buckets_ok_frame: "attest_buckets s' = attest_buckets s \<Longrightarrow> buckets_ok s' \<longleftrightarrow> buckets_ok s"
  by (simp add: buckets_ok_def)

lemma note_nonce_frame [simp]:
  "by_pubkey (snd (note_nonce n s)) = by_pubkey s" "by_token (snd (note_nonce n s)) = by_token s"
  "attest_buckets (snd (note_nonce n s)) = attest_buckets s"
  by (simp_all add: note_nonce_def)

lemma get_by_token_note_nonce [simp]: "get_by_token t (snd (note_nonce n s)) = get_by_token t s"
  by (simp add: get_by_token_def split: option.splits)

lemma store_exec_inv:
  assumes it: "iteration_of iter" and inv: "store_inv s" and adm: "admissible s op"
  shows "store_inv (store_exec iter op s)"
proof (cases op)
  case (Insert e)
  then show ?thesis
    using inv adm member_insert_wf [of s e] member_insert_frame(2) buckets_ok_frame
    unfolding store_inv_def by (metis admissible_simps(1) store_exec.simps(1))
next
  case (Revoke h)
  then show ?thesis
    using inv revoke_wf [OF it] revoke_frame(2) [OF it] buckets_ok_frame
    unfolding store_inv_def by (metis store_exec.simps(2))
next
  case (Note_Nonce n)
  then show ?thesis
    using inv store_wf_frame [of "snd (note_nonce n s)" s] buckets_ok_frame [of "snd (note_nonce n s)" s]
    by (simp add: store_inv_def)
next
  case (Allow_Attestation now pk)
  then show ?thesis
    using inv store_wf_frame [of "snd (allow_attestation now pk s)" s] allow_attestation_ok
    by (simp add: store_inv_def allow_attestation_frame)
qed

lemma default_inner_inv: "store_inv default_inner"
  using default_inner_wf by (simp add: store_inv_def buckets_ok_def default_inner_def)

text \<open>The steps of a store whose map iterates in the order \<open>iter\<close>, when that is an order at all.\<close>

definition guarded_step :: "(pubkey, member) iteration \<Rightarrow> inner \<Rightarrow> inner \<Rightarrow> bool" where
  "guarded_step iter s t \<longleftrightarrow> iteration_of iter \<and> store_step iter s t"

interpretation store_sys: invariant_system default_inner "guarded_step iter" store_inv for iter
  by unfold_locales
    (auto simp: guarded_step_def default_inner_inv intro: store_exec_inv elim!: store_stepE)

lemma reachable_store_inv:
  "iteration_of iter \<Longrightarrow> reachable default_inner (store_step iter) s \<Longrightarrow> store_inv s"
  using store_sys.inv_reachable reachable_mono [of default_inner "store_step iter" s "guarded_step iter"]
  by (simp add: guarded_step_def)

subsection \<open>Bearers over an execution\<close>

text \<open>
  What the request handlers rely on: an operation leaves a bearer valid only if it was, or if it
  mints that very bearer. So a bearer that is cut stays cut.
\<close>

locale bearer_table =
  fixes valid :: "'s \<Rightarrow> 't \<Rightarrow> bool"
    and exec :: "'op \<Rightarrow> 's \<Rightarrow> 's"
    and mint :: "'op \<Rightarrow> 't option"
    and sane :: "'s \<Rightarrow> bool"
    and allowed :: "'s \<Rightarrow> 'op \<Rightarrow> bool"
  assumes sane_exec: "sane s \<Longrightarrow> allowed s op \<Longrightarrow> sane (exec op s)"
    and valid_exec: "sane s \<Longrightarrow> allowed s op \<Longrightarrow> valid (exec op s) t \<Longrightarrow> valid s t \<or> mint op = Some t"
    and valid_mint: "sane s \<Longrightarrow> allowed s op \<Longrightarrow> mint op = Some t \<Longrightarrow> valid (exec op s) t"
begin

lemma sane_run: "sane s \<Longrightarrow> run_ok allowed exec s ops \<Longrightarrow> sane (fold exec ops s)"
  by (induction ops arbitrary: s) (auto intro: sane_exec)

lemma cut_stays_cut:
  "sane s \<Longrightarrow> run_ok allowed exec s ops \<Longrightarrow> \<not> valid s t \<Longrightarrow> \<forall>op \<in> set ops. mint op \<noteq> Some t \<Longrightarrow>
   \<not> valid (fold exec ops s) t"
proof (induction ops arbitrary: s)
  case (Cons op ops)
  then show ?case using sane_exec valid_exec by fastforce
qed simp

end

definition store_allowed :: "(pubkey, member) iteration \<Rightarrow> inner \<Rightarrow> store_op \<Rightarrow> bool" where
  "store_allowed iter s op \<longleftrightarrow> iteration_of iter \<and> admissible s op"

lemma contains_token_frame: "by_token s' = by_token s \<Longrightarrow> contains_token t s' \<longleftrightarrow> contains_token t s"
  by (simp add: contains_token_def)

lemma revoke_contains:
  assumes "iteration_of iter" "store_wf s" "contains_token t (snd (revoke_by_member_hash iter h s))"
  shows "contains_token t s"
  using assms(1,2)
proof (cases rule: revoke_cases [where h = h])
  case none
  then show ?thesis using assms(3) by simp
next
  case (some pk m)
  then show ?thesis using assms(3) by (auto simp: contains_token_def hm_contains_def split: if_splits)
qed

lemma store_exec_contains:
  assumes it: "iteration_of iter" and inv: "store_inv s" and adm: "admissible s op"
    and val: "contains_token t (store_exec iter op s)"
  shows "contains_token t s \<or> mints op = Some t"
proof (cases op)
  case (Insert e)
  then show ?thesis
    using val adm inv member_insert_contains [of s e t] by (auto simp: store_inv_def)
next
  case (Revoke h)
  then show ?thesis using val inv revoke_contains [OF it] by (auto simp: store_inv_def)
qed (use val in \<open>auto simp: allow_attestation_frame contains_token_frame [of "snd (note_nonce _ s)" s]
        contains_token_frame [of "snd (allow_attestation _ _ s)" s]\<close>)

lemma store_exec_mints:
  assumes "store_inv s" "admissible s op" "mints op = Some t"
  shows "contains_token t (store_exec iter op s)"
  using assms by (cases op) (auto simp: member_insert_contains store_inv_def)

interpretation bearers: bearer_table
  "\<lambda>s t. contains_token t s" "store_exec iter" mints store_inv "store_allowed iter" for iter
  by unfold_locales
    (auto simp: store_allowed_def intro: store_exec_inv store_exec_mints dest: store_exec_contains)

subsection \<open>The device-slot specification\<close>

text \<open>Every public method of the store, and the answer it gives its caller.\<close>

datatype store_call = Update store_op | Is_Live string | Look_Up string | Count_Sessions pubkey

datatype store_answer = Flag bool | Entry "member_entry option" | Number nat

fun store_reply :: "(pubkey, member) iteration \<Rightarrow> store_call \<Rightarrow> inner \<Rightarrow> store_answer" where
  "store_reply iter (Update (Insert e)) s = Flag (fst (member_insert e s))"
| "store_reply iter (Update (Revoke h)) s = Flag (fst (revoke_by_member_hash iter h s))"
| "store_reply iter (Update (Note_Nonce n)) s = Flag (fst (note_nonce n s))"
| "store_reply iter (Update (Allow_Attestation now pk)) s = Flag (fst (allow_attestation now pk s))"
| "store_reply iter (Is_Live t) s = Flag (contains_token t s)"
| "store_reply iter (Look_Up t) s = Entry (get_by_token t s)"
| "store_reply iter (Count_Sessions pk) s = Number (session_count pk s)"

inductive called :: "(pubkey, member) iteration \<Rightarrow> inner \<Rightarrow> store_call \<times> store_answer \<Rightarrow> inner \<Rightarrow> bool" for iter where
  update: "admissible s op \<Longrightarrow>
    called iter s (Update op, store_reply iter (Update op) s) (store_exec iter op s)"
| is_live: "called iter s (Is_Live t, store_reply iter (Is_Live t) s) s"
| look_up: "called iter s (Look_Up t, store_reply iter (Look_Up t) s) s"
| count: "called iter s (Count_Sessions pk, store_reply iter (Count_Sessions pk) s) s"

inductive_cases calledE: "called iter s l s'"

text \<open>
  The specification: a slot per key and the set of management nonces used. A slot keeps the newest
  three bearers; revoking a hash empties one slot that has it, and answers whether there was one.
\<close>

record slot =
  slot_hash :: member_hash
  slot_tx :: string
  slot_bearers :: "string list"

record device_table =
  slots :: "pubkey \<rightharpoonup> slot"
  nonces_used :: "string set"

definition empty_table :: device_table where
  "empty_table = \<lparr>slots = Map.empty, nonces_used = {}\<rparr>"

definition bearers_of :: "device_table \<Rightarrow> pubkey \<Rightarrow> string list" where
  "bearers_of \<sigma> pk = (case slots \<sigma> pk of None \<Rightarrow> [] | Some d \<Rightarrow> slot_bearers d)"

definition newest_three :: "string list \<Rightarrow> string list" where
  "newest_three ts = drop (length ts - 3) ts"

definition table_enroll :: "member_entry \<Rightarrow> device_table \<Rightarrow> device_table" where
  "table_enroll e \<sigma> = \<sigma>\<lparr>slots := (slots \<sigma>)(client_pubkey e \<mapsto>
     \<lparr>slot_hash = member_hash e, slot_tx = original_tx_id e,
      slot_bearers = newest_three (bearers_of \<sigma> (client_pubkey e) @ [session_token e])\<rparr>)\<rparr>"

inductive table_step :: "device_table \<Rightarrow> store_call \<times> store_answer \<Rightarrow> device_table \<Rightarrow> bool" where
  enroll: "table_step \<sigma> (Update (Insert e), Flag True) (table_enroll e \<sigma>)"
| revoke: "slots \<sigma> pk = Some d \<Longrightarrow> slot_hash d = h \<Longrightarrow>
    table_step \<sigma> (Update (Revoke h), Flag True) (\<sigma>\<lparr>slots := (slots \<sigma>)(pk := None)\<rparr>)"
| revoke_unknown: "\<forall>pk d. slots \<sigma> pk = Some d \<longrightarrow> slot_hash d \<noteq> h \<Longrightarrow>
    table_step \<sigma> (Update (Revoke h), Flag False) \<sigma>"
| nonce: "table_step \<sigma> (Update (Note_Nonce n), Flag (n \<notin> nonces_used \<sigma>))
    (\<sigma>\<lparr>nonces_used := insert n (nonces_used \<sigma>)\<rparr>)"
| attestation: "table_step \<sigma> (Update (Allow_Attestation now pk), Flag b) \<sigma>"
| is_live: "table_step \<sigma> (Is_Live t, Flag (\<exists>pk. t \<in> set (bearers_of \<sigma> pk))) \<sigma>"
| look_up: "slots \<sigma> pk = Some d \<Longrightarrow> t \<in> set (slot_bearers d) \<Longrightarrow>
    table_step \<sigma> (Look_Up t, Entry (Some \<lparr>client_pubkey = pk, member_hash = slot_hash d,
      session_token = t, original_tx_id = slot_tx d\<rparr>)) \<sigma>"
| look_up_unknown: "\<forall>pk. t \<notin> set (bearers_of \<sigma> pk) \<Longrightarrow> table_step \<sigma> (Look_Up t, Entry None) \<sigma>"
| count: "table_step \<sigma> (Count_Sessions pk, Number (length (bearers_of \<sigma> pk))) \<sigma>"

subsection \<open>Each call of the store is a step of the table\<close>

definition slot_of :: "member \<Rightarrow> slot" where
  "slot_of m = \<lparr>slot_hash = stored_hash m, slot_tx = stored_tx_id m, slot_bearers = sessions m\<rparr>"

definition table_of :: "inner \<Rightarrow> device_table" where
  "table_of s = \<lparr>slots = (\<lambda>pk. map_option slot_of (hm_get (by_pubkey s) pk)), nonces_used = seen_nonces s\<rparr>"

lemma slots_table_of [simp]: "slots (table_of s) pk = map_option slot_of (hm_get (by_pubkey s) pk)"
  by (simp add: table_of_def)

lemma bearers_of_table_of [simp]: "bearers_of (table_of s) pk = live_sessions s pk"
  by (simp add: bearers_of_def live_sessions_def slot_of_def split: option.splits)

lemma table_of_default: "table_of default_inner = empty_table"
  by (simp add: table_of_def empty_table_def default_inner_def fun_eq_iff)

lemma insert_refines_enroll: "table_of (snd (member_insert e s)) = table_enroll e (table_of s)"
  by (auto simp: table_of_def table_enroll_def fun_eq_iff member_insert_member member_insert_live
      member_insert_frame slot_of_def newest_three_def bearers_of_table_of [unfolded table_of_def] DEVICE_CAP_def)

lemma revoke_refines:
  assumes "iteration_of iter" "store_wf s"
  shows "table_step (table_of s) (Update (Revoke h), Flag (fst (revoke_by_member_hash iter h s)))
    (table_of (snd (revoke_by_member_hash iter h s)))"
  using assms
proof (cases rule: revoke_cases [where h = h])
  case none
  have "\<forall>pk d. slots (table_of s) pk = Some d \<longrightarrow> slot_hash d \<noteq> h"
    by (auto simp: slot_of_def dest: none(2))
  with none show ?thesis by (simp add: table_step.revoke_unknown)
next
  case (some pk m)
  have "table_of (snd (revoke_by_member_hash iter h s)) = (table_of s)\<lparr>slots := (slots (table_of s))(pk := None)\<rparr>"
    unfolding some(3) by (auto simp: table_of_def fun_eq_iff)
  with some show ?thesis
    using table_step.revoke [of "table_of s" pk "slot_of m" h] by (simp add: slot_of_def)
qed

lemma look_up_refines:
  assumes "store_wf s"
  shows "table_step (table_of s) (Look_Up t, Entry (get_by_token t s)) (table_of s)"
proof (cases "get_by_token t s")
  case None
  then have "\<not> contains_token t s" using get_by_token_contains [OF assms] by simp
  then show ?thesis
    using None contains_token_live [OF assms] by (simp add: table_step.look_up_unknown)
next
  case (Some e)
  then obtain m where m: "hm_get (by_pubkey s) (client_pubkey e) = Some m" "session_token e = t"
    "t \<in> set (sessions m)" "member_hash e = stored_hash m" "original_tx_id e = stored_tx_id m"
    using get_by_token_iff [OF assms, of t e] by (auto simp: live_sessions_def)
  then show ?thesis
    using Some table_step.look_up [of "table_of s" "client_pubkey e" "slot_of m" t]
    by (cases e) (simp add: slot_of_def)
qed

lemma update_simulated:
  assumes it: "iteration_of iter" and inv: "store_inv s"
  shows "table_step (table_of s) (Update op, store_reply iter (Update op) s) (table_of (store_exec iter op s))"
proof (cases op)
  case (Insert e)
  then show ?thesis by (simp add: member_insert_result insert_refines_enroll table_step.enroll)
next
  case (Revoke h)
  then show ?thesis using revoke_refines [OF it] inv by (simp add: store_inv_def)
next
  case (Note_Nonce n)
  have table: "table_of (snd (note_nonce n s)) = (table_of s)\<lparr>nonces_used := insert n (nonces_used (table_of s))\<rparr>"
    and reply: "fst (note_nonce n s) = (n \<notin> nonces_used (table_of s))"
    by (simp_all add: table_of_def note_nonce_def)
  show ?thesis
    unfolding Note_Nonce store_reply.simps store_exec.simps table reply by (rule table_step.nonce)
next
  case (Allow_Attestation now pk)
  then have "table_of (store_exec iter op s) = table_of s"
    by (simp add: table_of_def allow_attestation_frame)
  with Allow_Attestation show ?thesis by (simp add: table_step.attestation)
qed

lemma call_simulated:
  assumes it: "iteration_of iter" and inv: "store_inv s" and step: "called iter s l s'"
  shows "table_step (table_of s) l (table_of s')"
  using step
proof cases
  case (update op)
  then show ?thesis using update_simulated [OF it inv] by simp
next
  case (is_live t)
  then show ?thesis
    using table_step.is_live [of "table_of s" t] contains_token_live [of s t] inv by (simp add: store_inv_def)
next
  case (look_up t)
  then show ?thesis using look_up_refines inv by (simp add: store_inv_def)
next
  case (count pk)
  then show ?thesis using table_step.count [of "table_of s" pk] by (simp add: session_count_live)
qed

lemma call_inv: "iteration_of iter \<Longrightarrow> store_inv s \<Longrightarrow> called iter s l s' \<Longrightarrow> store_inv s'"
  by (auto intro: store_exec_inv elim!: calledE)

interpretation slots_ref: refined_system
  "\<lambda>s l s'. iteration_of iter \<and> called iter s l s'" store_inv table_of table_step for iter
  by unfold_locales (auto intro: call_inv call_simulated)

lemma called_run_guarded:
  "lts_run (called iter) s tr s' \<Longrightarrow> iteration_of iter \<Longrightarrow>
   lts_run (\<lambda>s l s'. iteration_of iter \<and> called iter s l s') s tr s'"
  by (induction rule: lts_run.induct) (auto intro: lts_run.intros)

subsection \<open>What every execution of the store guarantees\<close>

text \<open>
  C11: in every state an interleaving of store calls reaches, a bearer is in the token index
  exactly when it is a live session of the key it maps to, no key holds more than
  \<open>DEVICE_CAP\<close> bearers, and every rate-limit bucket is a float between \<open>0\<close> and \<open>ATTEST_BURST\<close>.
\<close>

theorem store_invariant_holds:
  assumes "iteration_of iter" "reachable default_inner (store_step iter) s"
  shows "store_wf s \<and> session_count pk s \<le> DEVICE_CAP \<and> buckets_ok s"
  using reachable_store_inv [OF assms] store_wfD(4) by (simp add: store_inv_def session_count_live)

lemma demo_reachable: "reachable default_inner (store_step (\<lambda>m. m)) (snd (member_insert (demo_entry ''a'') default_inner))"
proof -
  have adm: "admissible default_inner (Insert (demo_entry ''a''))" by simp code_simp
  have "store_step (\<lambda>m. m) default_inner (snd (member_insert (demo_entry ''a'') default_inner))"
    using store_step.store_step [OF adm, of "\<lambda>m. m"] by simp
  then show ?thesis by (rule reachable.reachable_step [OF reachable.reachable_init])
qed

theorem store_invariant_holds_witness:
  "store_wf (snd (member_insert (demo_entry ''a'') default_inner)) \<and>
   session_count [4, 1] (snd (member_insert (demo_entry ''a'') default_inner)) \<le> DEVICE_CAP"
  using store_invariant_holds [OF iteration_id demo_reachable] by blast

text \<open>
  C10: the two-index store refines the device-slot table. Take any sequence of method calls on a
  fresh store, readers included, with the answers they gave: the specification can run the same
  calls with the same answers, and ends in the table that the store's final state stands for. So
  enrolling keeps the newest three bearers of the key and drops the oldest, revoking takes exactly
  one slot with that hash, a nonce is accepted once, and \<open>contains_token\<close>, \<open>get_by_token\<close> and
  \<open>session_count\<close> answer at each moment what the table says. The answers of the rate limiter are
  left open here.
\<close>

theorem store_refines_device_slots:
  assumes "iteration_of iter" "lts_run (called iter) default_inner tr s"
  shows "lts_run table_step empty_table tr (table_of s)"
  using slots_ref.refines [OF called_run_guarded [OF assms(2,1)] default_inner_inv]
  by (simp add: table_of_default)

definition demo_trace :: "(store_call \<times> store_answer) list" where
  "demo_trace =
     [(Update (Insert (demo_entry ''a'')), Flag True), (Update (Insert (demo_entry ''b'')), Flag True),
      (Update (Insert (demo_entry ''c'')), Flag True), (Update (Insert (demo_entry ''d'')), Flag True),
      (Is_Live ''a'', Flag False), (Is_Live ''b'', Flag True),
      (Count_Sessions (client_pubkey (demo_entry ''a'')), Number 3)]"

text \<open>Runs of the store, call by call.\<close>

lemma called_insertI:
  "\<not> contains_token (session_token e) s \<Longrightarrow> store_reply iter (Update (Insert e)) s = a \<Longrightarrow>
   lts_run (called iter) (snd (member_insert e s)) tr u \<Longrightarrow> lts_run (called iter) s ((Update (Insert e), a) # tr) u"
  using lts_run_Cons [of "called iter", OF called.update [of s "Insert e" iter]] by auto

lemma called_readI:
  "store_reply iter (Is_Live t) s = a \<Longrightarrow> lts_run (called iter) s tr u \<Longrightarrow> lts_run (called iter) s ((Is_Live t, a) # tr) u"
  "store_reply iter (Count_Sessions pk) s = a \<Longrightarrow> lts_run (called iter) s tr u \<Longrightarrow>
   lts_run (called iter) s ((Count_Sessions pk, a) # tr) u"
  using lts_run_Cons [of "called iter", OF called.is_live [of iter s t]]
    lts_run_Cons [of "called iter", OF called.count [of iter s pk]] by auto

lemma demo_trace_run: "\<exists>s. lts_run (called (\<lambda>m. m)) default_inner demo_trace s"
  unfolding demo_trace_def
  by (rule exI, (rule called_insertI called_readI lts_run_Nil; code_simp?)+)

theorem store_refines_device_slots_witness:
  "\<exists>\<sigma>. lts_run table_step empty_table demo_trace \<sigma>"
proof -
  obtain s where "lts_run (called (\<lambda>m. m)) default_inner demo_trace s" using demo_trace_run by blast
  from store_refines_device_slots [OF iteration_id this] show ?thesis by blast
qed

text \<open>
  A bearer that is cut stays cut: if a token is not valid, no later interleaving of store
  calls makes it valid again unless one of them mints that same token.
\<close>

theorem cut_bearer_stays_cut:
  assumes "store_inv s" "\<not> contains_token t s" "run_ok (store_allowed iter) (store_exec iter) s ops"
    "\<forall>op \<in> set ops. mints op \<noteq> Some t"
  shows "\<not> contains_token t (fold (store_exec iter) ops s)"
  using bearers.cut_stays_cut assms by blast

theorem cut_bearer_stays_cut_witness:
  "\<not> contains_token ''z'' (fold (store_exec (\<lambda>m. m)) [Insert (demo_entry ''a''), Revoke [7]] default_inner)"
proof (rule cut_bearer_stays_cut [OF default_inner_inv])
  show "\<not> contains_token ''z'' default_inner" by code_simp
  have "\<not> contains_token ''a'' default_inner" by code_simp
  then show "run_ok (store_allowed (\<lambda>m. m)) (store_exec (\<lambda>m. m)) default_inner [Insert (demo_entry ''a''), Revoke [7]]"
    by (simp add: store_allowed_def iteration_id demo_entry_def)
qed (simp add: demo_entry_def)

subsection \<open>The replay guard\<close>

lemma store_exec_nonces: "iteration_of iter \<Longrightarrow> store_wf s \<Longrightarrow> seen_nonces s \<subseteq> seen_nonces (store_exec iter op s)"
  by (cases op) (auto simp: note_nonce_def member_insert_frame revoke_frame allow_attestation_frame)

lemma store_run_nonces:
  "store_inv s \<Longrightarrow> run_ok (store_allowed iter) (store_exec iter) s ops \<Longrightarrow>
   seen_nonces s \<subseteq> seen_nonces (fold (store_exec iter) ops s)"
proof (induction ops arbitrary: s)
  case (Cons op ops)
  then have "store_inv (store_exec iter op s)"
    by (simp add: bearers.sane_exec)
  with Cons have "seen_nonces (store_exec iter op s) \<subseteq> seen_nonces (fold (store_exec iter) (op # ops) s)"
    by simp
  moreover have "seen_nonces s \<subseteq> seen_nonces (store_exec iter op s)"
    using Cons.prems by (intro store_exec_nonces) (simp_all add: store_allowed_def store_inv_def)
  ultimately show ?case by blast
qed simp

text \<open>
  A management nonce is accepted at most once: after \<open>note_nonce\<close> accepted it, it is refused in
  every later state, whatever calls ran in between; and a nonce not seen before is accepted.
\<close>

theorem nonce_accepted_once:
  assumes "store_inv s"
    and "run_ok (store_allowed iter) (store_exec iter) (snd (note_nonce n s)) ops"
  shows "(fst (note_nonce n s) \<longleftrightarrow> n \<notin> seen_nonces s) \<and>
    \<not> fst (note_nonce n (fold (store_exec iter) ops (snd (note_nonce n s))))"
proof -
  have "store_inv (snd (note_nonce n s))"
    using assms(1) store_wf_frame [of "snd (note_nonce n s)" s] buckets_ok_frame [of "snd (note_nonce n s)" s]
    by (simp add: store_inv_def)
  then have "n \<in> seen_nonces (fold (store_exec iter) ops (snd (note_nonce n s)))"
    using store_run_nonces [OF _ assms(2)] by (auto simp: note_nonce_def)
  then show ?thesis by (simp add: note_nonce_def)
qed

theorem nonce_accepted_once_witness:
  "fst (note_nonce ''n'' default_inner) \<and>
   \<not> fst (note_nonce ''n'' (fold (store_exec (\<lambda>m. m)) [Revoke [7]] (snd (note_nonce ''n'' default_inner))))"
proof -
  have "run_ok (store_allowed (\<lambda>m. m)) (store_exec (\<lambda>m. m)) (snd (note_nonce ''n'' default_inner)) [Revoke [7]]"
    by (simp add: store_allowed_def iteration_id)
  from nonce_accepted_once [OF default_inner_inv this] show ?thesis by (simp add: default_inner_def)
qed

end
