(* ===== verification/Hex_Codec.thy ===== *)
theory Hex_Codec
  imports Iron_Prelude
begin

text \<open>
  \<^verbatim>\<open>hex_encode\<close> and \<^verbatim>\<open>hex_decode\<close> of \<^verbatim>\<open>src/src/lib.rs\<close>, and \<^verbatim>\<open>to_hex\<close> of
  \<^verbatim>\<open>src/src/main.rs\<close>. Nibbles are \<^typ>\<open>u8\<close> words, shifts and masks are the source's. The
  lemmas give the round trips, the exact set of strings the decoder accepts, and that the
  manifest's comparison (\<^verbatim>\<open>eq_ignore_ascii_case\<close> against the encoded key) is the same as
  decoding the manifest's text and comparing bytes.
\<close>

definition HEX :: string where
  "HEX = ''0123456789abcdef''"

fun hex_encode :: "bytes \<Rightarrow> string" where
  "hex_encode [] = []"
| "hex_encode (b # bs) =
     HEX ! unat (drop_bit 4 b) # HEX ! unat (b AND 0x0f) # hex_encode bs"

definition hex_val :: "u8 \<Rightarrow> u8 option" where
  "hex_val c =
     (if 0x30 \<le> c \<and> c \<le> 0x39 then Some (c - 0x30)
      else if 0x61 \<le> c \<and> c \<le> 0x66 then Some (c - 0x61 + 10)
      else if 0x41 \<le> c \<and> c \<le> 0x46 then Some (c - 0x41 + 10)
      else None)"

text \<open>
  The \<^verbatim>\<open>while\<close> loop reads two bytes per round; the length check before it makes the second
  read always in range, so the one-byte case below is unreachable from \<open>hex_decode\<close>.
\<close>

fun hex_decode_loop :: "bytes \<Rightarrow> bytes option" where
  "hex_decode_loop [] = Some []"
| "hex_decode_loop [_] = None"
| "hex_decode_loop (x # y # rest) =
     (case hex_val x of None \<Rightarrow> None
      | Some h \<Rightarrow> (case hex_val y of None \<Rightarrow> None
        | Some l \<Rightarrow> (case hex_decode_loop rest of None \<Rightarrow> None
          | Some out \<Rightarrow> Some ((push_bit 4 h OR l) # out))))"

definition hex_decode :: "string \<Rightarrow> bytes option" where
  "hex_decode s = (if length s mod 2 \<noteq> 0 then None else hex_decode_loop (as_bytes s))"

text \<open>
  \<^verbatim>\<open>format!("{b:02x}")\<close>: lower-case hexadecimal without leading zeros, padded to width 2
  with zeros.
\<close>

fun lower_hex :: "nat \<Rightarrow> string" where
  "lower_hex n = (if n < 16 then [HEX ! n] else lower_hex (n div 16) @ [HEX ! (n mod 16)])"

declare lower_hex.simps [simp del]

definition pad_zero :: "nat \<Rightarrow> string \<Rightarrow> string" where
  "pad_zero w s = replicate (w - length s) CHR ''0'' @ s"

definition to_hex :: "bytes \<Rightarrow> string" where
  "to_hex bs = concat (map (\<lambda>b. pad_zero 2 (lower_hex (unat b))) bs)"

text \<open>\<^verbatim>\<open>u8::to_ascii_lowercase\<close> and \<^verbatim>\<open>str::eq_ignore_ascii_case\<close>.\<close>

definition to_ascii_lowercase :: "u8 \<Rightarrow> u8" where
  "to_ascii_lowercase b = (if 0x41 \<le> b \<and> b \<le> 0x5a then b + 0x20 else b)"

definition eq_ignore_ascii_case :: "string \<Rightarrow> string \<Rightarrow> bool" where
  "eq_ignore_ascii_case s t \<longleftrightarrow>
     map to_ascii_lowercase (as_bytes s) = map to_ascii_lowercase (as_bytes t)"

subsection \<open>Digits and nibbles\<close>

lemma hex_val_lowercase: "hex_val (to_ascii_lowercase b) = hex_val b"
proof (cases "0x41 \<le> b \<and> b \<le> 0x5a")
  case True
  then have "0x41 \<le> b" "b \<le> 0x5a" by auto
  then show ?thesis
    by (rule byte_range) (simp add: hex_val_def to_ascii_lowercase_def)
next
  case False
  then show ?thesis by (simp only: to_ascii_lowercase_def if_False)
qed

text \<open>The sixteen digits as bytes.\<close>

definition HEX_bytes :: bytes where
  "HEX_bytes = [0x30, 0x31, 0x32, 0x33, 0x34, 0x35, 0x36, 0x37, 0x38, 0x39,
                0x61, 0x62, 0x63, 0x64, 0x65, 0x66]"

lemma HEX_as_bytes: "as_bytes HEX = HEX_bytes"
  by (simp add: HEX_def HEX_bytes_def)

lemma length_HEX: "length HEX = 16"
  by (simp add: HEX_def)

lemma HEX_nth: "k < 16 \<Longrightarrow> of_char (HEX ! k) = HEX_bytes ! k"
  using HEX_as_bytes length_HEX by (metis as_bytes_def nth_map)

lemma hex_val_sound:
  assumes "hex_val b = Some h"
  shows "unat h < 16 \<and> to_ascii_lowercase b = HEX_bytes ! unat h"
proof -
  let ?P = "\<lambda>b. case hex_val b of None \<Rightarrow> True
    | Some h \<Rightarrow> unat h < 16 \<and> to_ascii_lowercase b = HEX_bytes ! unat h"
  note defs = hex_val_def to_ascii_lowercase_def HEX_bytes_def
  consider "0x30 \<le> b" "b \<le> 0x39" | "0x61 \<le> b" "b \<le> 0x66" | "0x41 \<le> b" "b \<le> 0x46"
    using assms unfolding hex_val_def by (auto split: if_splits)
  then have "?P b"
  proof cases
    case 1 then show ?thesis by (rule byte_range) (simp add: defs)
  next
    case 2 then show ?thesis by (rule byte_range) (simp add: defs)
  next
    case 3 then show ?thesis by (rule byte_range) (simp add: defs)
  qed
  with assms show ?thesis by simp
qed

lemma HEX_bytes_all:
  "list_all (\<lambda>k. hex_val (HEX_bytes ! k) = Some (word_of_nat k)
     \<and> to_ascii_lowercase (HEX_bytes ! k) = HEX_bytes ! k) [0..<16]"
  by code_simp

lemma hex_val_HEX:
  assumes "k < 16"
  shows "hex_val (HEX_bytes ! k) = Some (word_of_nat k)"
    and "to_ascii_lowercase (HEX_bytes ! k) = HEX_bytes ! k"
  using HEX_bytes_all assms by (simp_all add: list_all_iff)

text \<open>The nibble a digit stands for determines the digit up to case.\<close>

lemma hex_val_iff:
  "hex_val b = Some h \<longleftrightarrow> unat h < 16 \<and> to_ascii_lowercase b = HEX_bytes ! unat h"
proof
  assume "hex_val b = Some h"
  then show "unat h < 16 \<and> to_ascii_lowercase b = HEX_bytes ! unat h"
    by (rule hex_val_sound)
next
  assume "unat h < 16 \<and> to_ascii_lowercase b = HEX_bytes ! unat h"
  then have "hex_val (to_ascii_lowercase b) = Some h"
    by (simp add: hex_val_HEX)
  then show "hex_val b = Some h"
    by (simp add: hex_val_lowercase)
qed

lemma mask_nibble: "b AND 0x0f = take_bit 4 b" for b :: u8
  by (simp add: take_bit_eq_mask mask_eq_exp_minus_1)

lemma nibbles_of_byte:
  "unat (drop_bit 4 b) < 16" "unat (b AND 0x0f) < 16" "push_bit 4 (drop_bit 4 b) OR (b AND 0x0f) = b"
  for b :: u8
proof -
  show "unat (drop_bit 4 b) < 16"
    using unat_drop_bit_less [of 4 b] by simp
  show "unat (b AND 0x0f) < 16"
    using unat_take_bit_less [of 4 b] by (simp add: mask_nibble)
  show "push_bit 4 (drop_bit 4 b) OR (b AND 0x0f) = b"
    unfolding mask_nibble by (rule bit_word_eqI) (auto simp: bit_simps)
qed

lemma byte_of_nibbles:
  assumes "unat h < 16" "unat l < 16"
  shows "drop_bit 4 (push_bit 4 h OR l) = h" "(push_bit 4 h OR l) AND 0x0f = (l :: u8)"
proof -
  have h: "take_bit 4 h = h" and l: "take_bit 4 l = l"
    using assms by (simp_all add: take_bit_small)
  have "drop_bit 4 (push_bit 4 (take_bit 4 h) OR take_bit 4 l) = take_bit 4 h"
    by (rule bit_word_eqI) (auto simp: bit_simps)
  then show "drop_bit 4 (push_bit 4 h OR l) = h" by (simp only: h l)
  have "take_bit 4 (push_bit 4 h OR l) = take_bit 4 l"
    by (rule bit_word_eqI) (auto simp: bit_simps)
  then show "(push_bit 4 h OR l) AND 0x0f = l" by (simp only: l mask_nibble)
qed

subsection \<open>Encoding and decoding\<close>

lemma hex_encode_bytes:
  "as_bytes (hex_encode (b # bs)) =
     HEX_bytes ! unat (drop_bit 4 b) # HEX_bytes ! unat (b AND 0x0f) # as_bytes (hex_encode bs)"
  using nibbles_of_byte [of b] by (simp add: HEX_nth)

lemma length_hex_encode [simp]: "length (hex_encode bs) = 2 * length bs"
  by (induction bs) simp_all

lemma hex_encode_append: "hex_encode (xs @ ys) = hex_encode xs @ hex_encode ys"
  by (induction xs) simp_all

lemma lowercase_hex_encode:
  "map to_ascii_lowercase (as_bytes (hex_encode bs)) = as_bytes (hex_encode bs)"
proof (induction bs)
  case (Cons b bs)
  then show ?case
    using nibbles_of_byte [of b] by (simp only: hex_encode_bytes list.map hex_val_HEX)
qed simp

lemma decode_pair_iff:
  "(\<exists>h l. hex_val x = Some h \<and> hex_val y = Some l \<and> b = push_bit 4 h OR l) \<longleftrightarrow>
   to_ascii_lowercase x = HEX_bytes ! unat (drop_bit 4 b) \<and>
   to_ascii_lowercase y = HEX_bytes ! unat (b AND 0x0f)"
proof
  assume "\<exists>h l. hex_val x = Some h \<and> hex_val y = Some l \<and> b = push_bit 4 h OR l"
  then show "to_ascii_lowercase x = HEX_bytes ! unat (drop_bit 4 b) \<and>
    to_ascii_lowercase y = HEX_bytes ! unat (b AND 0x0f)"
    by (auto simp: hex_val_iff byte_of_nibbles simp del: drop_bit_or)
next
  assume *: "to_ascii_lowercase x = HEX_bytes ! unat (drop_bit 4 b) \<and>
    to_ascii_lowercase y = HEX_bytes ! unat (b AND 0x0f)"
  then have "hex_val x = Some (drop_bit 4 b)" "hex_val y = Some (b AND 0x0f)"
    using nibbles_of_byte [of b] by (simp_all only: hex_val_iff simp_thms)
  then show "\<exists>h l. hex_val x = Some h \<and> hex_val y = Some l \<and> b = push_bit 4 h OR l"
    using nibbles_of_byte(3) [of b] by metis
qed

lemma hex_decode_loop_Cons2:
  "hex_decode_loop (x # y # rest) = Some (b # bs) \<longleftrightarrow>
     (\<exists>h l. hex_val x = Some h \<and> hex_val y = Some l \<and> b = push_bit 4 h OR l)
     \<and> hex_decode_loop rest = Some bs"
  by (auto split: option.splits)

lemma hex_decode_loop_iff:
  "hex_decode_loop xs = Some bs \<longleftrightarrow> map to_ascii_lowercase xs = as_bytes (hex_encode bs)"
proof (induction xs arbitrary: bs rule: hex_decode_loop.induct)
  case 1
  then show ?case by (cases bs) simp_all
next
  case (2 x)
  then show ?case by (cases bs) simp_all
next
  case (3 x y rest)
  show ?case
  proof (cases bs)
    case Nil
    then show ?thesis by (auto split: option.splits)
  next
    case (Cons b bs')
    have IH: "hex_decode_loop rest = Some bs' \<longleftrightarrow> map to_ascii_lowercase rest = as_bytes (hex_encode bs')"
      if "hex_val x = Some h" "hex_val y = Some l" for h l
      using "3.IH" that by blast
    show ?thesis
      unfolding Cons hex_decode_loop_Cons2 hex_encode_bytes list.map list.inject
      using IH decode_pair_iff [of x y b] by blast
  qed
qed

lemma hex_decode_iff:
  "hex_decode s = Some bs \<longleftrightarrow> eq_ignore_ascii_case s (hex_encode bs)"
proof
  assume "hex_decode s = Some bs"
  then show "eq_ignore_ascii_case s (hex_encode bs)"
    by (simp add: hex_decode_def hex_decode_loop_iff eq_ignore_ascii_case_def
        lowercase_hex_encode split: if_splits)
next
  assume "eq_ignore_ascii_case s (hex_encode bs)"
  then have *: "map to_ascii_lowercase (as_bytes s) = as_bytes (hex_encode bs)"
    by (simp add: eq_ignore_ascii_case_def lowercase_hex_encode)
  then have "length s = 2 * length bs"
    by (metis as_bytes_simps(4) length_hex_encode length_map)
  with * show "hex_decode s = Some bs"
    by (simp add: hex_decode_def hex_decode_loop_iff)
qed

text \<open>
  Decoding accepts exactly the hexadecimal spellings of a byte string, in any mixture of
  cases: \<^verbatim>\<open>hex_decode(s) == Some(bs)\<close> iff \<open>s\<close> equals \<^verbatim>\<open>hex_encode(bs)\<close> ignoring ASCII case.
  In particular the case-insensitive comparison the manifest checks use is the same as decoding
  the manifest's text and comparing raw bytes.
\<close>

theorem hex_decode_iff_eq_ignore_case:
  "hex_decode s = Some bs \<longleftrightarrow> eq_ignore_ascii_case s (hex_encode bs)"
  by (rule hex_decode_iff)

lemma hex_decode_encode [simp]: "hex_decode (hex_encode bs) = Some bs"
  by (simp add: hex_decode_def hex_decode_loop_iff lowercase_hex_encode)

lemma hex_encode_inject: "hex_encode xs = hex_encode ys \<longleftrightarrow> xs = ys"
  by (metis hex_decode_encode option.inject)

lemma hex_encode_digits: "x \<in> set (as_bytes (hex_encode bs)) \<Longrightarrow> hex_val x \<noteq> None"
proof (induction bs)
  case (Cons b bs)
  then show ?case
    using nibbles_of_byte [of b] hex_val_HEX(1)
    by (auto simp only: hex_encode_bytes set_simps insert_iff option.distinct)
qed simp

lemma hex_decode_length: "hex_decode s = Some bs \<Longrightarrow> length s = 2 * length bs"
  unfolding hex_decode_def
  by (metis as_bytes_simps(4) hex_decode_loop_iff length_hex_encode length_map option.distinct(1))

lemma hex_encode_nth_high: "k < length bs \<Longrightarrow> hex_encode bs ! (2 * k) = HEX ! unat (drop_bit 4 (bs ! k))"
proof (induction bs arbitrary: k)
  case (Cons b bs)
  then show ?case by (cases k) simp_all
qed simp

lemma lower_hex_byte: "pad_zero 2 (lower_hex (unat b)) = [HEX ! unat (drop_bit 4 b), HEX ! unat (b AND 0x0f)]"
  for b :: u8
proof -
  have d: "unat (drop_bit 4 b) = unat b div 16"
    by (simp only: unat_drop_bit_eq) (simp add: drop_bit_eq_div)
  have m: "unat (b AND 0x0f) = unat b mod 16"
    by (simp only: mask_nibble unsigned_take_bit_eq) (simp add: take_bit_eq_mod)
  have "unat b div 16 < 16"
    using nibbles_of_byte(1) [of b] d by simp
  then show ?thesis
    by (cases "unat b < 16")
      (simp_all add: d m lower_hex.simps [of "unat b"] lower_hex.simps [of "unat b div 16"] pad_zero_def HEX_def)
qed

text \<open>The boot banner's own formatter agrees with \<^const>\<open>hex_encode\<close>.\<close>

lemma to_hex_hex_encode: "to_hex bs = hex_encode bs"
  by (induction bs) (simp_all add: to_hex_def lower_hex_byte)

end
