(* ===== verification/Cohort_Manifest.thy ===== *)
theory Cohort_Manifest
  imports Hex_Codec
begin

text \<open>
  \<^verbatim>\<open>src/src/manifest.rs\<close>: the cohort manifest and its membership query. The JSON parser behind
  \<^verbatim>\<open>Manifest::from_bytes\<close> is \<^verbatim>\<open>serde_json\<close> and enters as a parameter where it is called.
\<close>

record manifest_member =
  pubkey :: string
  hash :: string

record manifest =
  cohort_id :: string
  manifest_members :: "manifest_member list"

text \<open>\<^verbatim>\<open>#[derive(Default)]\<close>\<close>

definition default_manifest :: manifest where
  "default_manifest = \<lparr>cohort_id = [], manifest_members = []\<rparr>"

definition from_bytes :: "(bytes \<Rightarrow> 'e + manifest) \<Rightarrow> bytes \<Rightarrow> 'e + manifest" where
  "from_bytes serde_json_from_slice b = serde_json_from_slice b"

definition contains_pubkey :: "manifest \<Rightarrow> bytes \<Rightarrow> bool" where
  "contains_pubkey m point =
     (let hex = hex_encode point
      in list_ex (\<lambda>mm. eq_ignore_ascii_case (pubkey mm) hex) (manifest_members m))"

text \<open>The pair lookup of /enroll (\<^verbatim>\<open>in_manifest\<close> in \<^verbatim>\<open>src/src/enroll.rs\<close>).\<close>

definition in_manifest :: "manifest \<Rightarrow> bytes \<Rightarrow> bytes \<Rightarrow> bool" where
  "in_manifest m client_pubkey member_hash =
     (let pk_hex = hex_encode client_pubkey; mh_hex = hex_encode member_hash
      in list_ex (\<lambda>mm. eq_ignore_ascii_case (pubkey mm) pk_hex \<and> eq_ignore_ascii_case (hash mm) mh_hex)
           (manifest_members m))"

text \<open>What the manifest says, read as bytes: the pairs its well-formed lines stand for.\<close>

definition manifest_pairs :: "manifest \<Rightarrow> (bytes \<times> bytes) set" where
  "manifest_pairs m =
     {(pk, mh). \<exists>mm \<in> set (manifest_members m). hex_decode (pubkey mm) = Some pk \<and> hex_decode (hash mm) = Some mh}"

lemma in_manifest_pairs: "in_manifest m pk mh \<longleftrightarrow> (pk, mh) \<in> manifest_pairs m"
  by (simp add: in_manifest_def manifest_pairs_def hex_decode_iff list_ex_iff Let_def)

lemma contains_pubkey_iff:
  "contains_pubkey m pk \<longleftrightarrow> (\<exists>mm \<in> set (manifest_members m). hex_decode (pubkey mm) = Some pk)"
  by (simp add: contains_pubkey_def hex_decode_iff list_ex_iff Let_def)

lemma in_manifest_contains: "in_manifest m pk mh \<Longrightarrow> contains_pubkey m pk"
  by (auto simp: in_manifest_pairs contains_pubkey_iff manifest_pairs_def)

text \<open>
  C37: the two membership checks read the manifest as bytes. /enroll's pair lookup succeeds exactly
  for the (public key, member hash) pairs whose hexadecimal spellings, in any case, stand in one
  line of the manifest, and every such pair also passes the handshake's public-key check.
\<close>

theorem manifest_checks_exact:
  "(in_manifest m pk mh \<longleftrightarrow> (pk, mh) \<in> manifest_pairs m)
   \<and> (contains_pubkey m pk \<longleftrightarrow> (\<exists>mm \<in> set (manifest_members m). hex_decode (pubkey mm) = Some pk))
   \<and> {pk. \<exists>mh. in_manifest m pk mh} \<subseteq> {pk. contains_pubkey m pk}"
  by (auto simp: in_manifest_pairs contains_pubkey_iff manifest_pairs_def)

lemma default_manifest_closed: "\<not> contains_pubkey default_manifest pk"
  by (simp add: contains_pubkey_iff default_manifest_def)

end
