(* ===== verification/App_State.thy ===== *)
theory App_State
  imports Store_Machine Cohort_Manifest
begin

text \<open>
  The state the router hands to every handler (\<^verbatim>\<open>src/src/state.rs\<close>): the boot context, the member
  store, the cohort manifest and the pinned trust anchors. \<open>'k\<close> is \<^verbatim>\<open>jsonwebtoken\<close>'s \<^verbatim>\<open>DecodingKey\<close>, \<open>'v\<close>
  is \<^verbatim>\<open>p256\<close>'s \<^verbatim>\<open>VerifyingKey\<close>. Only the member store changes after boot.
\<close>

record boot_context =
  spki_sha256 :: bytes

record ('k, 'v) anchors =
  apple_jwt_keys :: "(string, 'k) hash_map"
  apple_issuer :: string
  apple_audience :: string
  storekit_bundle_id :: string
  storekit_root_sha256 :: bytes
  appaccount_namespace :: bytes
  orch_manage_pubkey :: 'v

record ('k, 'v) app_state =
  boot :: boot_context
  members :: inner
  cohort :: manifest
  trust :: "('k, 'v) anchors"

text \<open>\<^verbatim>\<open>random_32\<close> of \<^verbatim>\<open>src/src/lib.rs\<close>; \<open>csprng\<close> is what the system's generator delivers, \<open>None\<close> when it fails.\<close>

definition random_32 :: "bytes option \<Rightarrow> bytes outcome" where
  "random_32 csprng = (case csprng of None \<Rightarrow> Panic ''system CSPRNG unavailable'' | Some buf \<Rightarrow> Return buf)"

end
