(* ===== verification/Jwt_Interface.thy ===== *)
theory Jwt_Interface
  imports Iron_Prelude
begin

text \<open>
  What the sources use of the \<^verbatim>\<open>jsonwebtoken\<close> crate. The crate is not part of the repository: its
  functions are the fields of the record \<open>jwt_lib\<close>, an argument of every definition that calls
  them. The header and the validation options carry the fields the sources read or set. The
  type \<open>'k\<close> is the crate's \<^verbatim>\<open>DecodingKey\<close>, the type \<open>'c\<close> the claims a token is decoded into.

  \<open>jwt_sound\<close> is the documented behaviour of \<^verbatim>\<open>decode\<close> that the trust argument rests on: what it
  returns was signed, with one of the permitted algorithms, under the key it was given, and the
  expiry was checked when the options ask for it. \<open>sig_ok alg key token\<close> says that the signature of
  the token verifies under the key.
\<close>

datatype algorithm = RS256 | ES256 | Other_Algorithm string

record jwt_header =
  alg :: algorithm
  kid :: "string option"
  x5c :: "string list option"

record validation =
  algorithms :: "algorithm list"
  valid_iss :: "string list option"
  valid_aud :: "string list option"
  required_spec_claims :: "string list"
  leeway :: u64
  validate_exp :: bool
  validate_aud :: bool

record ('k, 'c) jwt_lib =
  decode_header :: "string \<Rightarrow> jwt_header option"
  validation_new :: "algorithm \<Rightarrow> validation"
  decode :: "string \<Rightarrow> 'k \<Rightarrow> validation \<Rightarrow> 'c option"

definition set_issuer :: "string list \<Rightarrow> validation \<Rightarrow> validation" where
  "set_issuer xs v = v\<lparr>valid_iss := Some xs\<rparr>"

definition set_audience :: "string list \<Rightarrow> validation \<Rightarrow> validation" where
  "set_audience xs v = v\<lparr>valid_aud := Some xs\<rparr>"

definition set_required_spec_claims :: "string list \<Rightarrow> validation \<Rightarrow> validation" where
  "set_required_spec_claims xs v = v\<lparr>required_spec_claims := xs\<rparr>"

text \<open>\<open>now\<close> is the clock the crate reads, \<open>expiry\<close> the \<^verbatim>\<open>exp\<close> claim of what it decodes.\<close>

definition jwt_sound ::
  "('k, 'c) jwt_lib \<Rightarrow> (algorithm \<Rightarrow> 'k \<Rightarrow> string \<Rightarrow> bool) \<Rightarrow> ('c \<Rightarrow> u64) \<Rightarrow> nat \<Rightarrow> bool" where
  "jwt_sound lib sig_ok expiry now \<longleftrightarrow>
     (\<forall>a. algorithms (validation_new lib a) = [a] \<and> validate_exp (validation_new lib a)) \<and>
     (\<forall>t k v c. decode lib t k v = Some c \<longrightarrow>
        (\<exists>a \<in> set (algorithms v). sig_ok a k t) \<and>
        (validate_exp v \<longrightarrow> now \<le> unat (expiry c) + unat (leeway v)))"

lemma validation_setters [simp]:
  "algorithms (set_issuer xs v) = algorithms v" "algorithms (set_audience xs v) = algorithms v"
  "algorithms (set_required_spec_claims xs v) = algorithms v"
  "validate_exp (set_issuer xs v) = validate_exp v" "validate_exp (set_audience xs v) = validate_exp v"
  "validate_exp (set_required_spec_claims xs v) = validate_exp v"
  by (simp_all add: set_issuer_def set_audience_def set_required_spec_claims_def)

lemma jwt_sound_new:
  assumes "jwt_sound lib sig_ok expiry now"
  shows "algorithms (validation_new lib a) = [a]" "validate_exp (validation_new lib a)"
  using assms by (auto simp: jwt_sound_def)

lemma jwt_sound_decode:
  assumes "jwt_sound lib sig_ok expiry now" "decode lib t k v = Some c"
  shows "\<exists>a \<in> set (algorithms v). sig_ok a k t"
    "validate_exp v \<Longrightarrow> now \<le> unat (expiry c) + unat (leeway v)"
  using assms by (auto simp: jwt_sound_def)

end
