(* ===== verification/Apple_Jwks.thy ===== *)
theory Apple_Jwks
  imports Jwt_Interface Hash_Map
begin

text \<open>
  \<^verbatim>\<open>src/src/apple_jwks.rs\<close>: the pinned Sign-in-with-Apple key set and the verification of an Apple
  identity token. \<^verbatim>\<open>serde_json\<close> and \<^verbatim>\<open>DecodingKey::from_rsa_components\<close> are parameters.
\<close>

definition APPLE_ISSUER :: string where "APPLE_ISSUER = ''https://appleid.apple.com''"

definition APPLE_AUDIENCE :: string where "APPLE_AUDIENCE = ''com.rayeeev.IronServer''"

record jwk =
  jwk_kid :: string
  jwk_n :: string
  jwk_e :: string
  jwk_kty :: "string option"
  jwk_use_field :: "string option"

text \<open>The loop body of \<^verbatim>\<open>load_apple_jwt_keys\<close> over the keys of the document.\<close>

fun load_keys_loop ::
  "(string \<Rightarrow> string \<Rightarrow> 'k option) \<Rightarrow> jwk list \<Rightarrow> (string, 'k) hash_map \<Rightarrow> (string, 'k) hash_map" where
  "load_keys_loop from_rsa_components [] out = out"
| "load_keys_loop from_rsa_components (k # ks) out =
     (if jwk_kty k \<noteq> Some ''RSA'' then load_keys_loop from_rsa_components ks out
      else if (case jwk_use_field k of Some u \<Rightarrow> u \<noteq> ''sig'' | None \<Rightarrow> False)
      then load_keys_loop from_rsa_components ks out
      else (case from_rsa_components (jwk_n k) (jwk_e k) of
              Some dk \<Rightarrow> load_keys_loop from_rsa_components ks (hm_insert (jwk_kid k) dk out)
            | None \<Rightarrow> load_keys_loop from_rsa_components ks out))"

definition load_apple_jwt_keys ::
  "(bytes \<Rightarrow> jwk list option) \<Rightarrow> (string \<Rightarrow> string \<Rightarrow> 'k option) \<Rightarrow> bytes \<Rightarrow> (string, 'k) hash_map outcome" where
  "load_apple_jwt_keys from_slice from_rsa_components jwks_json =
     (case from_slice jwks_json of
        None \<Rightarrow> Panic ''pinned Apple JWKS must parse''
      | Some keys \<Rightarrow> Return (load_keys_loop from_rsa_components keys hm_empty))"

text \<open>\<^verbatim>\<open>serde_json::Value\<close>, with the kinds the code does not look into under one constructor.\<close>

datatype json_value = JString string | JArray "json_value list" | JOther

record apple_claims =
  iss :: string
  sub :: string
  aud :: json_value
  exp_claim :: u64
  iat :: u64

fun as_str :: "json_value \<Rightarrow> string option" where
  "as_str (JString s) = Some s"
| "as_str _ = None"

fun aud_contains :: "json_value \<Rightarrow> string \<Rightarrow> bool" where
  "aud_contains (JString s) needle = (s = needle)"
| "aud_contains (JArray items) needle = list_ex (\<lambda>v. as_str v = Some needle) items"
| "aud_contains JOther needle = False"

definition apple_validation :: "('k, 'c) jwt_lib \<Rightarrow> string \<Rightarrow> string \<Rightarrow> validation" where
  "apple_validation lib issuer audience =
     (set_required_spec_claims [''iss'', ''aud'', ''exp'', ''iat'', ''sub'']
        (set_audience [audience] (set_issuer [issuer] (validation_new lib RS256))))\<lparr>leeway := 60\<rparr>"

definition verify_apple_jwt ::
  "('k, apple_claims) jwt_lib \<Rightarrow> string \<Rightarrow> (string, 'k) hash_map \<Rightarrow> string \<Rightarrow> string \<Rightarrow> apple_claims option" where
  "verify_apple_jwt lib token keys issuer audience =
     (case decode_header lib token of None \<Rightarrow> None
      | Some header \<Rightarrow>
        if alg header \<noteq> RS256 then None
        else (case kid header of None \<Rightarrow> None
          | Some k \<Rightarrow> (case hm_get keys k of None \<Rightarrow> None
            | Some key \<Rightarrow>
              (case decode lib token key (apple_validation lib issuer audience) of None \<Rightarrow> None
               | Some claims \<Rightarrow>
                 if iss claims \<noteq> issuer then None
                 else if \<not> aud_contains (aud claims) audience then None
                 else if sub claims = [] \<or> length (sub claims) > 255 then None
                 else Some claims))))"

subsection \<open>The pinned keys\<close>

text \<open>The key a JWK stands for: an RSA key, not marked for another use, whose numbers decode.\<close>

definition usable_key :: "(string \<Rightarrow> string \<Rightarrow> 'k option) \<Rightarrow> jwk \<Rightarrow> (string \<times> 'k) option" where
  "usable_key from_rsa k =
     (if jwk_kty k = Some ''RSA'' \<and> jwk_use_field k \<in> {None, Some ''sig''}
      then map_option (Pair (jwk_kid k)) (from_rsa (jwk_n k) (jwk_e k)) else None)"

lemma load_keys_loop_get:
  "hm_get (load_keys_loop from_rsa ks out) k =
     (case map_of (rev (List.map_filter (usable_key from_rsa) ks)) k of Some dk \<Rightarrow> Some dk | None \<Rightarrow> hm_get out k)"
proof (induction ks arbitrary: out)
  case (Cons j ks)
  then show ?case
    by (auto simp: usable_key_def List.map_filter_simps map_add_def split: option.splits if_splits)
qed (simp add: List.map_filter_simps)

text \<open>
  Loading the pinned key set either panics, exactly when the document does not parse, or yields a
  table that maps each key id to the last usable key of the document with that id (an RSA key
  whose \<^verbatim>\<open>use\<close> is absent or \<^verbatim>\<open>sig\<close> and whose numbers decode), and nothing else.
\<close>

theorem load_apple_jwt_keys_exact:
  "case from_slice json of
     None \<Rightarrow> load_apple_jwt_keys from_slice from_rsa json = Panic ''pinned Apple JWKS must parse''
   | Some keys \<Rightarrow> (\<exists>m. load_apple_jwt_keys from_slice from_rsa json = Return m \<and>
       (\<forall>k. hm_get m k = map_of (rev (List.map_filter (usable_key from_rsa) keys)) k))"
  by (auto simp: load_apple_jwt_keys_def load_keys_loop_get split: option.splits)

subsection \<open>Identity tokens\<close>

lemma verify_apple_jwt_SomeD:
  assumes "verify_apple_jwt lib token keys issuer audience = Some claims"
  obtains h k key where "decode_header lib token = Some h" "alg h = RS256" "kid h = Some k"
    "hm_get keys k = Some key" "decode lib token key (apple_validation lib issuer audience) = Some claims"
    "iss claims = issuer" "aud_contains (aud claims) audience" "0 < length (sub claims)" "length (sub claims) \<le> 255"
  using assms by (auto simp: verify_apple_jwt_def split: option.splits if_splits)

lemma apple_validation_fields:
  assumes "jwt_sound lib sig_ok expiry now"
  shows "algorithms (apple_validation lib i a) = [RS256]" "validate_exp (apple_validation lib i a)"
    "leeway (apple_validation lib i a) = 60"
  using jwt_sound_new [OF assms] by (simp_all add: apple_validation_def)

lemma verify_apple_jwt_sig:
  assumes sound: "jwt_sound lib sig_ok expiry now"
    and accept: "verify_apple_jwt lib token keys issuer audience = Some claims"
  shows "\<exists>h k key. decode_header lib token = Some h \<and> kid h = Some k \<and> hm_get keys k = Some key \<and>
    sig_ok RS256 key token"
  using accept apple_validation_fields(1) [OF sound] jwt_sound_decode(1) [OF sound]
  by (elim verify_apple_jwt_SomeD) fastforce

text \<open>
  C17: an identity token is accepted only if it carries an RS256 signature under the pinned key its
  header names (no other algorithm, no key outside the pinned set), its issuer is the expected
  one, the audience contains the application's, the subject is 1 to 255 bytes long, and it
  expired at most 60 seconds ago.
\<close>

theorem apple_jwt_accept_sound:
  assumes sound: "jwt_sound lib sig_ok exp_claim now"
    and accept: "verify_apple_jwt lib token keys issuer audience = Some claims"
  shows "(\<exists>h k key. decode_header lib token = Some h \<and> kid h = Some k \<and> hm_get keys k = Some key \<and>
            sig_ok RS256 key token) \<and>
    iss claims = issuer \<and> aud_contains (aud claims) audience \<and>
    0 < length (sub claims) \<and> length (sub claims) \<le> 255 \<and> now \<le> unat (exp_claim claims) + 60"
proof -
  from accept obtain key where *: "decode lib token key (apple_validation lib issuer audience) = Some claims"
    "iss claims = issuer" "aud_contains (aud claims) audience" "0 < length (sub claims)" "length (sub claims) \<le> 255"
    by (rule verify_apple_jwt_SomeD)
  have "now \<le> unat (exp_claim claims) + 60"
    using jwt_sound_decode(2) [OF sound *(1)] apple_validation_fields(2,3) [OF sound] by simp
  then show ?thesis using * verify_apple_jwt_sig [OF sound accept] by blast
qed

text \<open>A library that accepts the one token \<^verbatim>\<open>tok\<close> under key \<open>1\<close>.\<close>

definition demo_validation :: "algorithm \<Rightarrow> validation" where
  "demo_validation a = \<lparr>algorithms = [a], valid_iss = None, valid_aud = None, required_spec_claims = [''exp''],
     leeway = 60, validate_exp = True, validate_aud = True\<rparr>"

definition demo_claims :: apple_claims where
  "demo_claims = \<lparr>iss = APPLE_ISSUER, sub = ''001.ab'', aud = JArray [JString APPLE_AUDIENCE], exp_claim = 1000, iat = 900\<rparr>"

definition demo_apple_lib :: "(nat, apple_claims) jwt_lib" where
  "demo_apple_lib = \<lparr>
     decode_header = (\<lambda>t. if t = ''tok'' then Some \<lparr>alg = RS256, kid = Some ''K1'', x5c = None\<rparr> else None),
     validation_new = demo_validation,
     decode = (\<lambda>t k v. if t = ''tok'' \<and> k = 1 \<and> RS256 \<in> set (algorithms v) \<and> (validate_exp v \<longrightarrow> 40 \<le> unat (leeway v)) then Some demo_claims else None)\<rparr>"

definition demo_apple_signed :: "algorithm \<Rightarrow> nat \<Rightarrow> string \<Rightarrow> bool" where
  "demo_apple_signed a k t \<longleftrightarrow> a = RS256 \<and> k = 1 \<and> t = ''tok''"

lemma demo_apple_lib_sound: "jwt_sound demo_apple_lib demo_apple_signed exp_claim 1040"
  by (auto simp: jwt_sound_def demo_apple_lib_def demo_validation_def demo_claims_def demo_apple_signed_def
      split: if_splits)

theorem apple_jwt_accept_sound_witness:
  "verify_apple_jwt demo_apple_lib ''tok'' [(''K1'', 1)] APPLE_ISSUER APPLE_AUDIENCE = Some demo_claims \<and>
   1040 \<le> unat (exp_claim demo_claims) + 60"
proof -
  have run: "verify_apple_jwt demo_apple_lib ''tok'' [(''K1'', 1)] APPLE_ISSUER APPLE_AUDIENCE = Some demo_claims"
    by (simp add: verify_apple_jwt_def demo_apple_lib_def apple_validation_def set_issuer_def set_audience_def
        set_required_spec_claims_def demo_validation_def hm_get_def demo_claims_def)
  then show ?thesis using apple_jwt_accept_sound [OF demo_apple_lib_sound run] by blast
qed

end
