(* ===== verification/Base64_Codec.thy ===== *)
theory Base64_Codec
  imports Iron_Prelude
begin

text \<open>
  The hand-written base64 routines: \<^verbatim>\<open>b64url_nopad\<close> and \<^verbatim>\<open>b64_decode_any\<close> of
  \<^verbatim>\<open>src/src/lib.rs\<close> and the padded \<^verbatim>\<open>b64_encode\<close> of \<^verbatim>\<open>src/src/attestation.rs\<close>. The decoder
  keeps the source's \<^verbatim>\<open>u32\<close> accumulator, whose high bits are never cleared and shift out.

  The locale \<open>base64_alphabet\<close> states what an alphabet must promise for the decoder to invert
  an encoder over it; the standard and the url alphabet interpret it, and both encoders get
  their round trip from the same lemmas.
\<close>

definition B64URL :: string where
  "B64URL = ''ABCDEFGHIJKLMNOPQRSTUVWXYZabcdefghijklmnopqrstuvwxyz0123456789-_''"

definition B64 :: string where
  "B64 = ''ABCDEFGHIJKLMNOPQRSTUVWXYZabcdefghijklmnopqrstuvwxyz0123456789+/''"

text \<open>\<^verbatim>\<open>T[(n >> k & 63) as usize]\<close>: Rust's shift binds tighter than its mask.\<close>

definition sextet :: "u32 \<Rightarrow> nat \<Rightarrow> nat" where
  "sextet n k = unat (drop_bit k n AND 63)"

fun b64url_nopad :: "bytes \<Rightarrow> string" where
  "b64url_nopad (c0 # c1 # c2 # rest) =
     (let n = push_bit 16 (ucast c0) OR push_bit 8 (ucast c1) OR ucast c2
      in [B64URL ! sextet n 18, B64URL ! sextet n 12, B64URL ! sextet n 6, B64URL ! sextet n 0]
         @ b64url_nopad rest)"
| "b64url_nopad [r0] =
     (let n = push_bit 16 (ucast r0) in [B64URL ! sextet n 18, B64URL ! sextet n 12])"
| "b64url_nopad [r0, r1] =
     (let n = push_bit 16 (ucast r0) OR push_bit 8 (ucast r1)
      in [B64URL ! sextet n 18, B64URL ! sextet n 12, B64URL ! sextet n 6])"
| "b64url_nopad [] = []"

text \<open>\<^verbatim>\<open>bytes.chunks(3)\<close> with the missing bytes of the last chunk read as 0.\<close>

definition b64_quad :: "bytes \<Rightarrow> string" where
  "b64_quad chunk =
     (let b0 = chunk ! 0;
          b1 = (if 1 < length chunk then chunk ! 1 else 0);
          b2 = (if 2 < length chunk then chunk ! 2 else 0);
          n = push_bit 16 (ucast b0) OR push_bit 8 (ucast b1) OR ucast b2
      in [B64 ! sextet n 18, B64 ! sextet n 12,
          if length chunk > 1 then B64 ! sextet n 6 else CHR ''='',
          if length chunk > 2 then B64 ! sextet n 0 else CHR ''=''])"

fun b64_encode :: "bytes \<Rightarrow> string" where
  "b64_encode (c0 # c1 # c2 # rest) = b64_quad [c0, c1, c2] @ b64_encode rest"
| "b64_encode [] = []"
| "b64_encode chunk = b64_quad chunk"

definition b64_val :: "u8 \<Rightarrow> u32 option" where
  "b64_val c =
     (if 0x41 \<le> c \<and> c \<le> 0x5a then Some (ucast (c - 0x41))
      else if 0x61 \<le> c \<and> c \<le> 0x7a then Some (ucast (c - 0x61 + 26))
      else if 0x30 \<le> c \<and> c \<le> 0x39 then Some (ucast (c - 0x30 + 52))
      else if c = 0x2b \<or> c = 0x2d then Some 62
      else if c = 0x2f \<or> c = 0x5f then Some 63
      else None)"

definition b64_skipped :: "u8 \<Rightarrow> bool" where
  "b64_skipped c \<longleftrightarrow> c = 0x3d \<or> c = 0x0a \<or> c = 0x0d"

text \<open>The loop over the input bytes, with the accumulator, the bit count and the output.\<close>

fun b64_decode_loop :: "u32 \<Rightarrow> u32 \<Rightarrow> bytes \<Rightarrow> bytes \<Rightarrow> bytes option" where
  "b64_decode_loop acc nbits out [] = Some out"
| "b64_decode_loop acc nbits out (c # cs) =
     (if b64_skipped c then b64_decode_loop acc nbits out cs
      else case b64_val c of None \<Rightarrow> None
        | Some v \<Rightarrow>
            (let acc' = push_bit 6 acc OR v; nbits' = nbits + 6
             in if nbits' \<ge> 8
                then b64_decode_loop acc' (nbits' - 8) (out @ [ucast (drop_bit (unat (nbits' - 8)) acc')]) cs
                else b64_decode_loop acc' nbits' out cs))"

definition b64_decode_any :: "string \<Rightarrow> bytes option" where
  "b64_decode_any s = b64_decode_loop 0 0 [] (as_bytes s)"

declare b64_decode_loop.simps(2) [simp del]

subsection \<open>The bits of a group\<close>

lemma mask_sextet: "w AND 63 = take_bit 6 w" for w :: u32
  by (simp add: take_bit_eq_mask mask_eq_exp_minus_1)

lemma sextet_less [simp]: "sextet n k < 64"
  using unat_take_bit_less [of 6] by (simp add: sextet_def mask_sextet)

lemma word_of_sextet [simp]: "word_of_nat (sextet n k) = take_bit 6 (drop_bit k n)"
  by (simp add: sextet_def mask_sextet)

text \<open>The 24-bit group of three bytes, and its bits.\<close>

definition triple :: "u8 \<Rightarrow> u8 \<Rightarrow> u8 \<Rightarrow> u32" where
  "triple b0 b1 b2 = push_bit 16 (ucast b0) OR push_bit 8 (ucast b1) OR ucast b2"

lemma bit_triple:
  "bit (triple b0 b1 b2) n \<longleftrightarrow>
     (16 \<le> n \<and> n < 32 \<and> bit b0 (n - 16)) \<or> (8 \<le> n \<and> n < 32 \<and> bit b1 (n - 8)) \<or> (n < 32 \<and> bit b2 n)"
  unfolding triple_def by (auto simp: bit_simps)

lemma triple_zero:
  "push_bit 16 (ucast b0) = triple b0 0 0"
  "push_bit 16 (ucast b0) OR push_bit 8 (ucast b1) = triple b0 b1 0"
  by (simp_all add: triple_def)

text \<open>
  Pushing the sextets of a group into an accumulator that already holds anything: the byte the
  decoder emits after the second, third and fourth sextet is the first, second and third byte.
\<close>

definition push6 :: "u32 \<Rightarrow> u32 \<Rightarrow> nat \<Rightarrow> u32" where
  "push6 acc n k = push_bit 6 acc OR take_bit 6 (drop_bit k n)"

lemma bit_push6:
  "bit (push6 acc n k) i \<longleftrightarrow> i < 32 \<and> (if i < 6 then bit n (k + i) else bit acc (i - 6))"
  unfolding push6_def using bit_imp_le_length [of n "k + i"] bit_imp_le_length [of acc "i - 6"]
  by (auto simp: bit_simps)

lemmas group_bits = bit_simps bit_push6 bit_triple bit_u8_high

lemma emitted_bytes:
  "ucast (drop_bit 4 (push6 (push6 acc (triple b0 b1 b2) 18) (triple b0 b1 b2) 12)) = b0"
  "ucast (drop_bit 2 (push6 (push6 acc (triple b0 b1 b2) 12) (triple b0 b1 b2) 6)) = b1"
  "ucast (push6 (push6 acc (triple b0 b1 b2) 6) (triple b0 b1 b2) 0) = b2"
  by (rule u8_eqI; simp add: group_bits flip: numeral_2_eq_2)+

subsection \<open>Decoding what an encoder over a good alphabet wrote\<close>

locale base64_alphabet =
  fixes table :: string
  assumes val_table: "k < 64 \<Longrightarrow> b64_val (of_char (table ! k)) = Some (word_of_nat k)"
    and table_not_skipped: "k < 64 \<Longrightarrow> \<not> b64_skipped (of_char (table ! k))"
begin

lemma decode_sextet:
  "b64_decode_loop acc nbits out (of_char (table ! sextet n k) # cs) =
     (let acc' = push6 acc n k
      in if nbits + 6 \<ge> 8
         then b64_decode_loop acc' (nbits + 6 - 8) (out @ [ucast (drop_bit (unat (nbits + 6 - 8)) acc')]) cs
         else b64_decode_loop acc' (nbits + 6) out cs)"
  by (simp add: b64_decode_loop.simps val_table table_not_skipped push6_def Let_def)

lemma decode_one:
  "b64_decode_loop acc 0 out (of_char (table ! sextet n 18) # of_char (table ! sextet n 12) # cs)
     = b64_decode_loop (push6 (push6 acc n 18) n 12) 4 (out @ [b0]) cs"
  if "n = triple b0 b1 b2"
  using that by (simp add: decode_sextet emitted_bytes)

lemma decode_two:
  "b64_decode_loop acc 0 out
       (of_char (table ! sextet n 18) # of_char (table ! sextet n 12) # of_char (table ! sextet n 6) # cs)
     = b64_decode_loop (push6 (push6 (push6 acc n 18) n 12) n 6) 2 (out @ [b0, b1]) cs"
  if "n = triple b0 b1 b2"
  using that by (simp add: decode_one) (simp add: decode_sextet emitted_bytes)

lemma decode_three:
  "b64_decode_loop acc 0 out
       (of_char (table ! sextet n 18) # of_char (table ! sextet n 12) #
        of_char (table ! sextet n 6) # of_char (table ! sextet n 0) # cs)
     = b64_decode_loop (push6 (push6 (push6 (push6 acc n 18) n 12) n 6) n 0) 0 (out @ [b0, b1, b2]) cs"
  if "n = triple b0 b1 b2"
  using that by (simp add: decode_two) (simp add: decode_sextet emitted_bytes)

end

lemma length_tables: "length B64URL = 64" "length B64 = 64"
  by (simp_all add: B64URL_def B64_def)

lemma upt_0_64: "[0..<64] = 0 # 1 # [2..<64 :: nat]"
  by (simp add: upt_conv_Cons numeral_2_eq_2)

lemma table_vals:
  "map b64_val (as_bytes B64URL) = map (\<lambda>k. Some (word_of_nat k)) [0..<64]"
  "map b64_val (as_bytes B64) = map (\<lambda>k. Some (word_of_nat k)) [0..<64]"
  "list_all (\<lambda>c. \<not> b64_skipped c) (as_bytes B64URL)"
  "list_all (\<lambda>c. \<not> b64_skipped c) (as_bytes B64)"
  by (simp_all add: B64URL_def B64_def b64_val_def b64_skipped_def upt_0_64)

lemma base64_alphabetI:
  assumes "length s = 64" "map b64_val (as_bytes s) = map (\<lambda>k. Some (word_of_nat k)) [0..<64]"
    and "list_all (\<lambda>c. \<not> b64_skipped c) (as_bytes s)"
  shows "base64_alphabet s"
proof
  fix k :: nat assume k: "k < 64"
  have "b64_val (as_bytes s ! k) = map b64_val (as_bytes s) ! k"
    using assms(1) k by simp
  also have "\<dots> = Some (word_of_nat k)"
    using assms(2) k by simp
  finally show "b64_val (of_char (s ! k)) = Some (word_of_nat k)"
    using assms(1) k by (simp add: as_bytes_def)
  show "\<not> b64_skipped (of_char (s ! k))"
    using assms(1,3) k by (simp add: list_all_length as_bytes_def)
qed

interpretation url: base64_alphabet B64URL
  by (rule base64_alphabetI) (simp_all only: length_tables table_vals)

interpretation std: base64_alphabet B64
  by (rule base64_alphabetI) (simp_all only: length_tables table_vals)

subsection \<open>Round trips\<close>

lemma skip_padding: "b64_decode_loop acc nbits out (0x3d # cs) = b64_decode_loop acc nbits out cs"
  by (simp add: b64_decode_loop.simps b64_skipped_def)

lemma decode_b64url: "b64_decode_loop acc 0 out (as_bytes (b64url_nopad bs)) = Some (out @ bs)"
proof (induction bs arbitrary: acc out rule: b64url_nopad.induct)
  case (1 c0 c1 c2 rest)
  then show ?case
    by (simp add: url.decode_three [of _ c0 c1 c2] Let_def flip: triple_def)
next
  case (2 r0)
  show ?case by (simp add: url.decode_one [of _ r0 0 0] triple_zero Let_def)
next
  case (3 r0 r1)
  show ?case by (simp add: url.decode_two [of _ r0 r1 0] triple_zero(2) Let_def)
qed simp

lemma b64_quad_bytes:
  "as_bytes (b64_quad [c0, c1, c2]) = map (\<lambda>k. of_char (B64 ! sextet (triple c0 c1 c2) k)) [18, 12, 6, 0]"
  "as_bytes (b64_quad [c0, c1]) = map (\<lambda>k. of_char (B64 ! sextet (triple c0 c1 0) k)) [18, 12, 6] @ [0x3d]"
  "as_bytes (b64_quad [c0]) = map (\<lambda>k. of_char (B64 ! sextet (triple c0 0 0) k)) [18, 12] @ [0x3d, 0x3d]"
  by (simp_all add: b64_quad_def Let_def triple_def)

lemmas b64_encode_induct = b64_encode.induct [case_names three empty one two]

lemma decode_b64: "b64_decode_loop acc 0 out (as_bytes (b64_encode bs)) = Some (out @ bs)"
proof (induction bs arbitrary: acc out rule: b64_encode_induct)
  case (three c0 c1 c2 rest)
  then show ?case by (simp add: b64_quad_bytes std.decode_three [of _ c0 c1 c2])
next
  case empty
  show ?case by simp
next
  case (one r0)
  show ?case by (simp add: b64_quad_bytes std.decode_one [of _ r0 0 0] skip_padding)
next
  case (two r0 r1)
  show ?case by (simp add: b64_quad_bytes std.decode_two [of _ r0 r1 0] skip_padding)
qed

text \<open>
  C39: the one decoder inverts both encoders: \<^verbatim>\<open>b64_decode_any\<close> recovers every byte string from
  its unpadded base64url form (session tokens, the /manage envelope) and from its padded
  standard form (the attestation envelope, x5c certificates).
\<close>

theorem b64_decode_any_inverts:
  "b64_decode_any (b64url_nopad bs) = Some bs \<and> b64_decode_any (b64_encode bs) = Some bs"
  by (simp add: b64_decode_any_def decode_b64url decode_b64)

subsection \<open>What the decoder accepts\<close>

lemma nbits_step:
  assumes "unat (nbits :: u32) < 8"
  shows "unat (nbits + 6) = unat nbits + 6" "8 \<le> nbits + 6 \<longleftrightarrow> 2 \<le> unat nbits"
    "2 \<le> unat nbits \<Longrightarrow> unat (nbits + 6 - 8) = unat nbits - 2"
proof -
  show s: "unat (nbits + 6) = unat nbits + 6"
    using assms by (simp add: unat_word_ariths)
  show "8 \<le> nbits + 6 \<longleftrightarrow> 2 \<le> unat nbits"
    using s by (simp add: word_le_nat_alt)
  show "unat (nbits + 6 - 8) = unat nbits - 2" if "2 \<le> unat nbits"
    using s that by (subst unat_sub) (auto simp: word_le_nat_alt)
qed

abbreviation b64_invalid :: "u8 \<Rightarrow> bool" where
  "b64_invalid c \<equiv> \<not> b64_skipped c \<and> b64_val c = None"

lemma decode_loop_None:
  "b64_decode_loop acc nbits out cs = None \<longleftrightarrow> (\<exists>c \<in> set cs. b64_invalid c)"
  by (induction cs arbitrary: acc nbits out)
    (auto simp: b64_decode_loop.simps Let_def split: option.splits)

lemma decode_loop_length:
  assumes "unat nbits < 8" "b64_decode_loop acc nbits out cs = Some r"
  shows "length r = length out + (unat nbits + 6 * length (filter (\<lambda>c. \<not> b64_skipped c) cs)) div 8"
  using assms
proof (induction cs arbitrary: acc nbits out)
  case Nil
  then show ?case by simp
next
  case (Cons c cs)
  let ?n = "length (filter (\<lambda>c. \<not> b64_skipped c) cs)"
  show ?case
  proof (cases "b64_skipped c")
    case True
    with Cons show ?thesis by (simp add: b64_decode_loop.simps)
  next
    case False
    with Cons.prems obtain v where v: "b64_val c = Some v"
      by (auto simp: b64_decode_loop.simps split: option.splits)
    note step = nbits_step [OF Cons.prems(1)]
    show ?thesis
    proof (cases "2 \<le> unat nbits")
      case True
      then have "length r = length out + 1 + (unat nbits - 2 + 6 * ?n) div 8"
        using Cons.prems False v step
        by (subst Cons.IH [of "nbits + 6 - 8" "push_bit 6 acc OR v"
              "out @ [ucast (drop_bit (unat (nbits + 6 - 8)) (push_bit 6 acc OR v))]"])
          (auto simp: b64_decode_loop.simps Let_def)
      with True False show ?thesis by simp
    next
      case small: False
      then have "length r = length out + (unat nbits + 6 + 6 * ?n) div 8"
        using Cons.prems False v step
        by (subst Cons.IH [of "nbits + 6" "push_bit 6 acc OR v" out])
          (auto simp: b64_decode_loop.simps Let_def)
      with False show ?thesis by (simp add: add.assoc)
    qed
  qed
qed

text \<open>The two classes of characters, by their codes.\<close>

lemma of_char_set: "c \<in> set s \<longleftrightarrow> (of_char c :: nat) \<in> set (map of_char s)"
  by (auto simp: of_char_eq_iff)

lemma unat_of_char: "unat (of_char c :: u8) = of_char c"
proof -
  have "(of_char c :: u8) = word_of_nat (of_char c)" by (simp only: of_nat_of_char)
  then show ?thesis using nat_of_char_less_256 [of c] by (simp add: unsigned_of_nat take_bit_nat_eq_self)
qed

lemma b64_codes:
  "map of_char ''ABCDEFGHIJKLMNOPQRSTUVWXYZabcdefghijklmnopqrstuvwxyz0123456789+/-_'' =
     [65..<91] @ [97..<123] @ [48..<58] @ [43, 47, 45, 95 :: nat]"
  by (simp add: upt_rec)

lemma b64_val_None:
  "b64_val w = None \<longleftrightarrow> unat w \<notin> {65..<91} \<union> {97..<123} \<union> {48..<58} \<union> {43, 47, 45, 95}"
  by (auto simp: b64_val_def word_le_nat_alt word_unat_eq_iff)

lemma b64_val_chars:
  "b64_val (of_char c) = None \<longleftrightarrow> c \<notin> set ''ABCDEFGHIJKLMNOPQRSTUVWXYZabcdefghijklmnopqrstuvwxyz0123456789+/-_''"
  unfolding of_char_set b64_codes unfolding b64_val_None unat_of_char set_append set_upt list.set by blast

lemma b64_skipped_chars: "b64_skipped (of_char c) \<longleftrightarrow> c \<in> {CHR ''='', CHR 0x0A, CHR 0x0D}"
proof -
  have "c \<in> {CHR ''='', CHR 0x0A, CHR 0x0D} \<longleftrightarrow> c \<in> set [CHR ''='', CHR 0x0A, CHR 0x0D]" by simp
  then show ?thesis unfolding of_char_set by (simp add: b64_skipped_def word_unat_eq_iff unat_of_char)
qed
lemma decode_loop_filter:
  "b64_decode_loop acc nbits out cs = b64_decode_loop acc nbits out (filter (\<lambda>c. \<not> b64_skipped c) cs)"
  by (induction cs arbitrary: acc nbits out) (auto simp: b64_decode_loop.simps Let_def split: option.splits)

lemma filter_as_bytes:
  "filter (\<lambda>c. \<not> b64_skipped c) (as_bytes s) = as_bytes (filter (\<lambda>c. c \<notin> {CHR ''='', CHR 0x0A, CHR 0x0D}) s)"
  by (simp add: as_bytes_def filter_map comp_def b64_skipped_chars)

lemma b64_invalid_chars:
  "(\<exists>c \<in> set (as_bytes s). b64_invalid c) \<longleftrightarrow>
   (\<exists>c \<in> set s. c \<notin> {CHR ''='', CHR 0x0A, CHR 0x0D} \<and>
      c \<notin> set ''ABCDEFGHIJKLMNOPQRSTUVWXYZabcdefghijklmnopqrstuvwxyz0123456789+/-_'')"
  by (simp only: as_bytes_def set_map bex_simps b64_skipped_chars b64_val_chars)

text \<open>
  C40: \<^verbatim>\<open>b64_decode_any\<close> rejects a string exactly when it holds a character that is neither one of the
  letters, the digits, \<^verbatim>\<open>+\<close>, \<^verbatim>\<open>/\<close>, \<^verbatim>\<open>-\<close> and \<^verbatim>\<open>_\<close> nor one of \<^verbatim>\<open>=\<close>, line feed and carriage return (so a space or a tab is
  rejected). These last three have no influence on the result wherever they stand, and an accepted string with \<open>n\<close>
  other characters decodes to \<open>6 * n div 8\<close> bytes: left-over bits are dropped.
\<close>

theorem b64_decode_any_total:
  "(b64_decode_any s = None \<longleftrightarrow>
      (\<exists>c \<in> set s. c \<notin> {CHR ''='', CHR 0x0A, CHR 0x0D} \<and>
         c \<notin> set ''ABCDEFGHIJKLMNOPQRSTUVWXYZabcdefghijklmnopqrstuvwxyz0123456789+/-_'')) \<and>
   b64_decode_any s = b64_decode_any (filter (\<lambda>c. c \<notin> {CHR ''='', CHR 0x0A, CHR 0x0D}) s) \<and>
   (case b64_decode_any s of None \<Rightarrow> True
    | Some bs \<Rightarrow> length bs = 6 * length (filter (\<lambda>c. c \<notin> {CHR ''='', CHR 0x0A, CHR 0x0D}) s) div 8)"
proof (intro conjI)
  show "b64_decode_any s = b64_decode_any (filter (\<lambda>c. c \<notin> {CHR ''='', CHR 0x0A, CHR 0x0D}) s)"
    unfolding b64_decode_any_def filter_as_bytes [symmetric] by (rule decode_loop_filter)
  show "case b64_decode_any s of None \<Rightarrow> True
    | Some bs \<Rightarrow> length bs = 6 * length (filter (\<lambda>c. c \<notin> {CHR ''='', CHR 0x0A, CHR 0x0D}) s) div 8"
  proof (cases "b64_decode_any s")
    case (Some bs)
    then have "length bs = 6 * length (filter (\<lambda>c. \<not> b64_skipped c) (as_bytes s)) div 8"
      using decode_loop_length [of 0 0 "[]" "as_bytes s" bs] by (simp add: b64_decode_any_def)
    with Some show ?thesis unfolding filter_as_bytes by simp
  qed simp
qed (simp only: b64_decode_any_def decode_loop_None b64_invalid_chars)

text \<open>The length of an encoding: four characters per three bytes, rounded up.\<close>

lemma length_b64url_nopad: "length (b64url_nopad bs) = (4 * length bs + 2) div 3"
  by (induction bs rule: b64url_nopad.induct) (auto simp: Let_def)

lemma b64url_nopad_inject: "b64url_nopad xs = b64url_nopad ys \<longleftrightarrow> xs = ys"
  using decode_b64url [of 0 "[]"] by (metis append_Nil option.inject)

end
