(* ===== verification/Storekit.thy ===== *)
theory Storekit
  imports Jwt_Interface Base64_Codec
begin

text \<open>
  \<^verbatim>\<open>verify_storekit_jws\<close> of \<^verbatim>\<open>src/src/enroll.rs\<close>: a StoreKit transaction is accepted when its
  \<^verbatim>\<open>x5c\<close> chain walks to the pinned root and the leaf key verifies the token. The \<^verbatim>\<open>x509-parser\<close>
  crate is the record \<open>x509_lib\<close> of the accessors the code calls (\<open>'c\<close> a parsed certificate, \<open>'p\<close> its
  public key info); an \<open>Inl\<close> is the crate's error. \<^verbatim>\<open>SHA-256\<close> is the parameter \<open>sha256\<close>.

  The two loops over the chain are shown equivalent to the declarative \<open>chain_ok\<close>, and the
  indexing and \<^verbatim>\<open>unwrap\<close> in the function are shown never to panic.
\<close>

record basic_constraints =
  ca :: bool
  path_len_constraint :: "u32 option"

record ('c, 'p) x509_lib =
  from_der :: "bytes \<Rightarrow> 'c option"
  public_key :: "'c \<Rightarrow> 'p"
  subject_public_key_data :: "'p \<Rightarrow> bytes"
  verify_signature :: "'c \<Rightarrow> 'p \<Rightarrow> bool"
  validity_is_valid :: "'c \<Rightarrow> bool"
  cert_basic_constraints :: "'c \<Rightarrow> unit + basic_constraints option"
  cert_key_usage :: "'c \<Rightarrow> unit + bool option"

record storekit_payload =
  bundle_id :: string
  original_transaction_id :: string
  transaction_id :: string
  product_id :: string
  app_account_token :: "string option"

definition APPLE_ROOT_CA_G3_SHA256 :: bytes where
  "APPLE_ROOT_CA_G3_SHA256 =
     [0x63, 0x34, 0x3a, 0xbf, 0xb8, 0x9a, 0x6a, 0x03, 0xeb, 0xb5, 0x7e, 0x9b, 0x3f, 0x5f, 0xa7, 0xbe, 0x7c, 0x4f,
      0x5c, 0x75, 0x6f, 0x30, 0x17, 0xb3, 0xa8, 0xc4, 0x88, 0xc3, 0x65, 0x3e, 0x91, 0x79]"

text \<open>The signature loop: certificate \<open>i\<close> is signed by certificate \<open>i + 1\<close>.\<close>

fun verify_links :: "('c, 'p) x509_lib \<Rightarrow> 'c list \<Rightarrow> bool" where
  "verify_links x (c # d # rest) = (verify_signature x c (public_key x d) \<and> verify_links x (d # rest))"
| "verify_links x _ = True"

text \<open>The constraint loop; \<open>depth\<close> counts from the leaf at \<open>0\<close>.\<close>

fun check_constraints :: "('c, 'p) x509_lib \<Rightarrow> nat \<Rightarrow> 'c list \<Rightarrow> bool" where
  "check_constraints x depth [] = True"
| "check_constraints x depth (cert # certs) =
     (if \<not> validity_is_valid x cert then False
      else if depth = 0 then check_constraints x (depth + 1) certs
      else (case cert_basic_constraints x cert of
              Inl _ \<Rightarrow> False
            | Inr None \<Rightarrow> False
            | Inr (Some bc) \<Rightarrow>
                if \<not> ca bc then False
                else if (case path_len_constraint bc of
                           Some max_len \<Rightarrow> (let intermediates_below = (word_of_nat depth :: u32) - 1 in intermediates_below > max_len)
                         | None \<Rightarrow> False) then False
                else if (case cert_key_usage x cert of Inr (Some key_cert_sign) \<Rightarrow> \<not> key_cert_sign | _ \<Rightarrow> False) then False
                else check_constraints x (depth + 1) certs))"

definition storekit_validation :: "('k, 'c) jwt_lib \<Rightarrow> validation" where
  "storekit_validation lib =
     (validation_new lib ES256)\<lparr>required_spec_claims := [], validate_exp := False, validate_aud := False\<rparr>"

definition verify_storekit_jws ::
  "('k, storekit_payload) jwt_lib \<Rightarrow> ('c, 'p) x509_lib \<Rightarrow> (bytes \<Rightarrow> bytes) \<Rightarrow> (bytes \<Rightarrow> 'k) \<Rightarrow>
   string \<Rightarrow> bytes \<Rightarrow> string \<Rightarrow> storekit_payload option outcome" where
  "verify_storekit_jws lib x sha256 from_ec_der jws root_sha256 expected_bundle_id =
     (case decode_header lib jws of None \<Rightarrow> Return None
      | Some header \<Rightarrow>
        if alg header \<noteq> ES256 then Return None
        else (case x5c header of None \<Rightarrow> Return None
          | Some chain \<Rightarrow>
            if length chain < 2 \<or> length chain > 5 then Return None
            else (case collect_opt b64_decode_any chain of None \<Rightarrow> Return None
              | Some ders \<Rightarrow>
                if ders = [] then Panic ''called `Option::unwrap()` on a `None` value''
                else if sha256 (last ders) \<noteq> root_sha256 then Return None
                else (case collect_opt (from_der x) ders of None \<Rightarrow> Return None
                  | Some parsed \<Rightarrow>
                    if parsed = [] then Panic ''attempt to subtract with overflow''
                    else if \<not> verify_links x parsed then Return None
                    else if \<not> check_constraints x 0 parsed then Return None
                    else (let leaf_key = from_ec_der (subject_public_key_data x (public_key x (hd parsed)))
                      in (case decode lib jws leaf_key (storekit_validation lib) of None \<Rightarrow> Return None
                          | Some payload \<Rightarrow>
                            if bundle_id payload \<noteq> expected_bundle_id
                               \<or> original_transaction_id payload = []
                               \<or> transaction_id payload = []
                               \<or> product_id payload = []
                            then Return None
                            else Return (Some payload)))))))"

subsection \<open>The chain, declaratively\<close>

text \<open>
  A certificate may issue with \<open>below\<close> intermediates between it and the leaf: it is a CA, its path
  length admits them, and a key usage extension that parses permits signing certificates.
\<close>

definition issuer_ok :: "('c, 'p) x509_lib \<Rightarrow> nat \<Rightarrow> 'c \<Rightarrow> bool" where
  "issuer_ok x below c \<longleftrightarrow>
     (\<exists>bc. cert_basic_constraints x c = Inr (Some bc) \<and> ca bc \<and>
        (\<forall>m. path_len_constraint bc = Some m \<longrightarrow> below \<le> unat m)) \<and>
     cert_key_usage x c \<noteq> Inr (Some False)"

definition chain_ok :: "('c, 'p) x509_lib \<Rightarrow> 'c list \<Rightarrow> bool" where
  "chain_ok x cs \<longleftrightarrow>
     (\<forall>i. Suc i < length cs \<longrightarrow> verify_signature x (cs ! i) (public_key x (cs ! Suc i))) \<and>
     (\<forall>i < length cs. validity_is_valid x (cs ! i)) \<and>
     (\<forall>i. Suc i < length cs \<longrightarrow> issuer_ok x i (cs ! Suc i))"

lemma verify_links_iff:
  "verify_links x cs \<longleftrightarrow> (\<forall>i. Suc i < length cs \<longrightarrow> verify_signature x (cs ! i) (public_key x (cs ! Suc i)))"
proof (induction x cs rule: verify_links.induct)
  case (1 x c d rest)
  then show ?case
    unfolding all_nat_0_Suc [of "\<lambda>i. Suc i < length (c # d # rest) \<longrightarrow> _ i"] by simp
qed auto

text \<open>The subtraction on \<^verbatim>\<open>u32\<close> does not wrap for an issuer of a chain of at most five.\<close>

lemma intermediates_below:
  assumes "depth < 5"
  shows "unat ((word_of_nat (Suc depth) :: u32) - 1) = depth"
proof -
  have "(word_of_nat (Suc depth) :: u32) - 1 = word_of_nat depth" by simp
  then show ?thesis using assms by (simp add: unsigned_of_nat take_bit_nat_eq_self)
qed

lemma check_issuer:
  assumes "depth < 5"
  shows "check_constraints x (Suc depth) (c # cs) \<longleftrightarrow>
    validity_is_valid x c \<and> issuer_ok x depth c \<and> check_constraints x (Suc (Suc depth)) cs"
proof -
  have cmp: "(word_of_nat (Suc depth) :: u32) - 1 > m \<longleftrightarrow> \<not> depth \<le> unat m" for m
    unfolding word_less_nat_alt intermediates_below [OF assms] by auto
  show ?thesis
    by (auto simp: issuer_ok_def Let_def cmp simp del: of_nat_Suc split: sum.splits option.splits bool.splits)
qed

lemma check_issuers:
  "depth + length cs \<le> 5 \<Longrightarrow> check_constraints x (Suc depth) cs \<longleftrightarrow>
    (\<forall>i < length cs. validity_is_valid x (cs ! i) \<and> issuer_ok x (depth + i) (cs ! i))"
proof (induction cs arbitrary: depth)
  case (Cons c cs)
  then have "check_constraints x (Suc depth) (c # cs) \<longleftrightarrow>
      validity_is_valid x c \<and> issuer_ok x depth c \<and>
      (\<forall>i < length cs. validity_is_valid x (cs ! i) \<and> issuer_ok x (Suc depth + i) (cs ! i))"
    by (simp add: check_issuer del: check_constraints.simps)
  then show ?case by (simp add: All_less_Suc2 del: check_constraints.simps)
qed simp

lemma chain_checks_iff:
  assumes "cs \<noteq> []" "length cs \<le> 5"
  shows "verify_links x cs \<and> check_constraints x 0 cs \<longleftrightarrow> chain_ok x cs"
proof -
  obtain leaf issuers where cs: "cs = leaf # issuers" using assms(1) by (cases cs) auto
  have "check_constraints x 0 cs \<longleftrightarrow> validity_is_valid x leaf \<and> check_constraints x (Suc 0) issuers"
    unfolding cs by simp
  also have "\<dots> \<longleftrightarrow> validity_is_valid x leaf \<and>
      (\<forall>i < length issuers. validity_is_valid x (issuers ! i) \<and> issuer_ok x i (issuers ! i))"
    using check_issuers [of 0 issuers x] assms(2) cs by simp
  also have "\<dots> \<longleftrightarrow> (\<forall>i < length cs. validity_is_valid x (cs ! i)) \<and>
      (\<forall>i. Suc i < length cs \<longrightarrow> issuer_ok x i (cs ! Suc i))"
    unfolding cs by (auto simp: All_less_Suc2)
  finally show ?thesis by (simp add: chain_ok_def verify_links_iff)
qed

subsection \<open>What acceptance means\<close>

text \<open>The certificates of a token's \<^verbatim>\<open>x5c\<close> header, when there are two to five and all of them parse.\<close>

definition x5c_chain :: "('k, 'j) jwt_lib \<Rightarrow> ('c, 'p) x509_lib \<Rightarrow> string \<Rightarrow> bytes list \<Rightarrow> 'c list \<Rightarrow> bool" where
  "x5c_chain lib x jws ders certs \<longleftrightarrow>
     (\<exists>h chain. decode_header lib jws = Some h \<and> alg h = ES256 \<and> x5c h = Some chain \<and>
        2 \<le> length chain \<and> length chain \<le> 5 \<and>
        list_all2 (\<lambda>s d. b64_decode_any s = Some d) chain ders \<and>
        list_all2 (\<lambda>d c. from_der x d = Some c) ders certs)"

definition leaf_key :: "('c, 'p) x509_lib \<Rightarrow> (bytes \<Rightarrow> 'k) \<Rightarrow> 'c list \<Rightarrow> 'k" where
  "leaf_key x from_ec_der certs = from_ec_der (subject_public_key_data x (public_key x (hd certs)))"

definition payload_ok :: "string \<Rightarrow> storekit_payload \<Rightarrow> bool" where
  "payload_ok expected p \<longleftrightarrow> bundle_id p = expected \<and> original_transaction_id p \<noteq> [] \<and>
     transaction_id p \<noteq> [] \<and> product_id p \<noteq> []"

lemma x5c_chain_lengths:
  "x5c_chain lib x jws ders certs \<Longrightarrow> ders \<noteq> [] \<and> certs \<noteq> [] \<and> length certs \<le> 5 \<and> 2 \<le> length certs"
  unfolding x5c_chain_def by (auto dest!: list_all2_lengthD)

lemma storekit_returns: "\<exists>r. verify_storekit_jws lib x sha256 from_ec_der jws root bundle = Return r"
  unfolding verify_storekit_jws_def
  by (auto split: option.splits simp: Let_def collect_opt_Some_iff dest!: list_all2_lengthD)

lemma storekit_accept_iff:
  "verify_storekit_jws lib x sha256 from_ec_der jws root bundle = Return (Some p) \<longleftrightarrow>
    (\<exists>ders certs. x5c_chain lib x jws ders certs \<and> sha256 (last ders) = root \<and> chain_ok x certs \<and>
       decode lib jws (leaf_key x from_ec_der certs) (storekit_validation lib) = Some p \<and> payload_ok bundle p)"
    (is "?run \<longleftrightarrow> ?spec")
proof
  assume ?run
  then obtain h chain ders certs where *: "decode_header lib jws = Some h" "alg h = ES256" "x5c h = Some chain"
    "\<not> (length chain < 2 \<or> 5 < length chain)" "collect_opt b64_decode_any chain = Some ders"
    "sha256 (last ders) = root" "collect_opt (from_der x) ders = Some certs"
    "verify_links x certs" "check_constraints x 0 certs"
    "decode lib jws (leaf_key x from_ec_der certs) (storekit_validation lib) = Some p" "payload_ok bundle p"
    by (auto simp: verify_storekit_jws_def Let_def leaf_key_def payload_ok_def split: option.splits if_splits)
  then have chain: "x5c_chain lib x jws ders certs"
    by (auto simp: x5c_chain_def collect_opt_Some_iff)
  then have "chain_ok x certs"
    using * x5c_chain_lengths [OF chain] chain_checks_iff by blast
  with * chain show ?spec by blast
next
  assume ?spec
  then obtain ders certs where *: "x5c_chain lib x jws ders certs" "sha256 (last ders) = root" "chain_ok x certs"
    "decode lib jws (leaf_key x from_ec_der certs) (storekit_validation lib) = Some p" "payload_ok bundle p"
    by blast
  moreover have "verify_links x certs" "check_constraints x 0 certs" "ders \<noteq> []" "certs \<noteq> []"
    using chain_checks_iff [of certs x] *(3) x5c_chain_lengths [OF *(1)] by auto
  ultimately show ?run
    unfolding x5c_chain_def
    by (auto simp: verify_storekit_jws_def collect_opt_Some_iff [symmetric] leaf_key_def payload_ok_def)
qed

text \<open>
  C16: verifying a StoreKit token never panics, and it accepts a payload exactly when: the token is
  ES256 with an \<^verbatim>\<open>x5c\<close> of two to five certificates that decode and parse; the last one hashes to the
  pinned root; every certificate is signed by the next and inside its validity window; every
  issuer is a CA whose path length admits the intermediates below it and whose key usage,
  where it parses, allows signing certificates; the leaf's key verifies the token; and the
  payload has the expected bundle id and non-empty transaction and product ids.
\<close>

theorem storekit_accept_exact:
  "(\<exists>r. verify_storekit_jws lib x sha256 from_ec_der jws root bundle = Return r) \<and>
   (verify_storekit_jws lib x sha256 from_ec_der jws root bundle = Return (Some p) \<longleftrightarrow>
     (\<exists>ders certs. x5c_chain lib x jws ders certs \<and> sha256 (last ders) = root \<and> chain_ok x certs \<and>
        decode lib jws (leaf_key x from_ec_der certs) (storekit_validation lib) = Some p \<and> payload_ok bundle p))"
  using storekit_returns storekit_accept_iff by blast

end
