(* ===== verification/Sha1_Digest.thy ===== *)
theory Sha1_Digest
  imports Hex_Codec
begin

text \<open>
  \<^verbatim>\<open>sha1\<close> of \<^verbatim>\<open>src/src/lib.rs\<close>: the padding loop, the in-place message schedule over an
  80-word array, the eighty rounds on five \<^verbatim>\<open>u32\<close> variables with wrapping additions, and the
  big-endian output. A second definition follows the wording of FIPS 180-4 (padding length in
  closed form, a recursive schedule, \<open>Ch\<close>, \<open>Parity\<close> and \<open>Maj\<close> with exclusive or); the
  equivalence of the two is proved for every message.
\<close>

type_synonym sha1_state = "u32 \<times> u32 \<times> u32 \<times> u32 \<times> u32"

definition u32_from_be_bytes :: "u8 \<Rightarrow> u8 \<Rightarrow> u8 \<Rightarrow> u8 \<Rightarrow> u32" where
  "u32_from_be_bytes b0 b1 b2 b3 =
     push_bit 24 (ucast b0) OR push_bit 16 (ucast b1) OR push_bit 8 (ucast b2) OR ucast b3"

definition u32_to_be_bytes :: "u32 \<Rightarrow> bytes" where
  "u32_to_be_bytes w = map (\<lambda>k. ucast (drop_bit k w)) [24, 16, 8, 0]"

definition u64_to_be_bytes :: "u64 \<Rightarrow> bytes" where
  "u64_to_be_bytes w = map (\<lambda>k. ucast (drop_bit k w)) [56, 48, 40, 32, 24, 16, 8, 0]"

text \<open>\<^verbatim>\<open>while msg.len() % 64 != 56 { msg.push(0) }\<close>\<close>

function sha1_pad_loop :: "bytes \<Rightarrow> bytes" where
  "sha1_pad_loop msg = (if length msg mod 64 \<noteq> 56 then sha1_pad_loop (msg @ [0]) else msg)"
  by pat_completeness auto
termination
proof (relation "measure (\<lambda>msg. if length msg mod 64 \<le> 56 then 56 - length msg mod 64
    else 120 - length msg mod 64)")
  fix msg :: bytes
  assume "length msg mod 64 \<noteq> 56"
  moreover have "length msg mod 64 < 64" by simp
  ultimately show "(msg @ [0], msg) \<in> measure (\<lambda>msg. if length msg mod 64 \<le> 56
      then 56 - length msg mod 64 else 120 - length msg mod 64)"
    by (auto simp: mod_Suc)
qed simp

declare sha1_pad_loop.simps [simp del]

definition sha1_message :: "bytes \<Rightarrow> bytes" where
  "sha1_message data =
     (let bit_len = (word_of_nat (length data) :: u64) * 8;
          msg = sha1_pad_loop (data @ [0x80])
      in msg @ u64_to_be_bytes bit_len)"

text \<open>\<^verbatim>\<open>chunks_exact(64)\<close>: a shorter remainder is dropped.\<close>

function chunks_exact :: "nat \<Rightarrow> 'a list \<Rightarrow> 'a list list" where
  "chunks_exact n xs =
     (if n = 0 \<or> length xs < n then [] else take n xs # chunks_exact n (drop n xs))"
  by pat_completeness auto
termination
  by (relation "measure (\<lambda>(n, xs). length xs)") auto

declare chunks_exact.simps [simp del]

definition sha1_load :: "bytes \<Rightarrow> u32 list \<Rightarrow> u32 list" where
  "sha1_load block w =
     fold (\<lambda>i w. w[i := u32_from_be_bytes (block ! (i * 4)) (block ! (i * 4 + 1))
                          (block ! (i * 4 + 2)) (block ! (i * 4 + 3))]) [0..<16] w"

definition sha1_extend :: "u32 list \<Rightarrow> u32 list" where
  "sha1_extend w =
     fold (\<lambda>i w. w[i := word_rotl 1 (w ! (i - 3) XOR w ! (i - 8) XOR w ! (i - 14) XOR w ! (i - 16))])
       [16..<80] w"

definition sha1_schedule :: "bytes \<Rightarrow> u32 list" where
  "sha1_schedule block = sha1_extend (sha1_load block (replicate 80 0))"

definition sha1_f_k :: "nat \<Rightarrow> u32 \<Rightarrow> u32 \<Rightarrow> u32 \<Rightarrow> u32 \<times> u32" where
  "sha1_f_k i b c d =
     (if i \<le> 19 then ((b AND c) OR (NOT b AND d), 0x5A827999)
      else if i \<le> 39 then (b XOR c XOR d, 0x6ED9EBA1)
      else if i \<le> 59 then ((b AND c) OR (b AND d) OR (c AND d), 0x8F1BBCDC)
      else (b XOR c XOR d, 0xCA62C1D6))"

fun sha1_round :: "nat \<times> u32 \<Rightarrow> sha1_state \<Rightarrow> sha1_state" where
  "sha1_round (i, wi) (a, b, c, d, e) =
     (let (f, k) = sha1_f_k i b c d;
          tmp = word_rotl 5 a + f + e + k + wi
      in (tmp, a, word_rotl 30 b, c, d))"

definition sha1_block :: "bytes \<Rightarrow> u32 list \<Rightarrow> u32 list" where
  "sha1_block block h =
     (let w = sha1_schedule block;
          (a, b, c, d, e) = fold sha1_round (enumerate 0 w) (h ! 0, h ! 1, h ! 2, h ! 3, h ! 4)
      in [h ! 0 + a, h ! 1 + b, h ! 2 + c, h ! 3 + d, h ! 4 + e])"

definition sha1_iv :: "u32 list" where
  "sha1_iv = [0x67452301, 0xEFCDAB89, 0x98BADCFE, 0x10325476, 0xC3D2E1F0]"

definition sha1 :: "bytes \<Rightarrow> bytes" where
  "sha1 data =
     concat (map u32_to_be_bytes (fold sha1_block (chunks_exact 64 (sha1_message data)) sha1_iv))"

subsection \<open>FIPS 180-4\<close>

text \<open>
  Section 5.1.1: append the bit 1, then the least number of zero bits that leaves 64 bits free in
  the last block, then the message length in bits. On whole bytes, with \<open>l\<close> the byte length, the
  zero bytes after \<open>0x80\<close> number \<open>(119 - l mod 64) mod 64\<close>.
\<close>

definition fips_pad :: "bytes \<Rightarrow> bytes" where
  "fips_pad m = m @ [0x80] @ replicate ((119 - length m mod 64) mod 64) 0
     @ u64_to_be_bytes (word_of_nat (8 * length m))"

definition fips_block_word :: "bytes \<Rightarrow> nat \<Rightarrow> nat \<Rightarrow> u32" where
  "fips_block_word m i t =
     (let p = 64 * i + 4 * t in u32_from_be_bytes (m ! p) (m ! (p + 1)) (m ! (p + 2)) (m ! (p + 3)))"

fun fips_W :: "(nat \<Rightarrow> u32) \<Rightarrow> nat \<Rightarrow> u32" where
  "fips_W M t =
     (if t < 16 then M t
      else word_rotl 1 (fips_W M (t - 3) XOR fips_W M (t - 8) XOR fips_W M (t - 14) XOR fips_W M (t - 16)))"

declare fips_W.simps [simp del]

definition fips_f :: "nat \<Rightarrow> u32 \<Rightarrow> u32 \<Rightarrow> u32 \<Rightarrow> u32" where
  "fips_f t x y z =
     (if t < 20 then (x AND y) XOR (NOT x AND z)
      else if 40 \<le> t \<and> t < 60 then (x AND y) XOR (x AND z) XOR (y AND z)
      else x XOR y XOR z)"

definition fips_K :: "nat \<Rightarrow> u32" where
  "fips_K t = (if t < 20 then 0x5A827999 else if t < 40 then 0x6ED9EBA1
               else if t < 60 then 0x8F1BBCDC else 0xCA62C1D6)"

primrec fips_vars :: "(nat \<Rightarrow> u32) \<Rightarrow> sha1_state \<Rightarrow> nat \<Rightarrow> sha1_state" where
  "fips_vars W s 0 = s"
| "fips_vars W s (Suc t) =
     (case fips_vars W s t of (a, b, c, d, e) \<Rightarrow>
        (word_rotl 5 a + fips_f t b c d + e + fips_K t + W t, a, word_rotl 30 b, c, d))"

text \<open>The intermediate hash value \<open>H\<close> after the first \<open>n\<close> blocks.\<close>

primrec fips_H :: "bytes \<Rightarrow> nat \<Rightarrow> sha1_state" where
  "fips_H m 0 = (0x67452301, 0xEFCDAB89, 0x98BADCFE, 0x10325476, 0xC3D2E1F0)"
| "fips_H m (Suc n) =
     (case fips_H m n of (h0, h1, h2, h3, h4) \<Rightarrow>
        case fips_vars (fips_W (fips_block_word m n)) (h0, h1, h2, h3, h4) 80 of (a, b, c, d, e) \<Rightarrow>
          (h0 + a, h1 + b, h2 + c, h3 + d, h4 + e))"

definition fips_sha1 :: "bytes \<Rightarrow> bytes" where
  "fips_sha1 m =
     (case fips_H (fips_pad m) (length (fips_pad m) div 64) of (h0, h1, h2, h3, h4) \<Rightarrow>
        u32_to_be_bytes h0 @ u32_to_be_bytes h1 @ u32_to_be_bytes h2 @ u32_to_be_bytes h3 @ u32_to_be_bytes h4)"

subsection \<open>Padding\<close>

lemma pad_zeros:
  fixes r :: nat
  assumes "r < 64"
  shows "(120 - r) mod 64 = (if r \<le> 56 then 56 - r else 120 - r)"
proof (cases "r \<le> 56")
  case True
  then have "120 - r = (56 - r) + 64" by simp
  then have "(120 - r) mod 64 = (56 - r) mod 64" by (simp only: mod_add_self2)
  with True show ?thesis by simp
next
  case False
  then have "120 - r < 64" by simp
  with False show ?thesis by simp
qed

lemma pad_zeros_step:
  fixes r :: nat
  assumes "r < 64" "r \<noteq> 56"
  shows "(120 - r) mod 64 = Suc ((120 - (if r = 63 then 0 else Suc r)) mod 64)"
  using assms pad_zeros [of r] pad_zeros [of "Suc r"] by (cases "r = 63"; cases "r \<le> 55") auto

lemma pad_zeros_fill: "r < 64 \<Longrightarrow> (r + 8 + (120 - r) mod 64) mod 64 = (0 :: nat)"
  by (cases "r \<le> 56") (auto simp: pad_zeros)

lemma sha1_pad_loop_replicate:
  "sha1_pad_loop msg = msg @ replicate ((120 - length msg mod 64) mod 64) 0"
proof (induction msg rule: sha1_pad_loop.induct)
  case (1 msg)
  show ?case
  proof (cases "length msg mod 64 = 56")
    case True
    then show ?thesis by (simp add: sha1_pad_loop.simps)
  next
    case False
    let ?r = "length msg mod 64"
    have r': "length (msg @ [0 :: u8]) mod 64 = (if ?r = 63 then 0 else Suc ?r)"
      by (simp add: mod_Suc)
    have "?r < 64" by simp
    then have step: "(120 - ?r) mod 64 = Suc ((120 - length (msg @ [0 :: u8]) mod 64) mod 64)"
      unfolding r' using False by (rule pad_zeros_step)
    have "sha1_pad_loop msg = sha1_pad_loop (msg @ [0])"
      using False by (simp add: sha1_pad_loop.simps [of msg])
    also have "\<dots> = (msg @ [0]) @ replicate ((120 - length (msg @ [0 :: u8]) mod 64) mod 64) 0"
      using "1.IH" False by blast
    finally show ?thesis
      unfolding step by simp
  qed
qed

lemma pad_zeros_Suc: "(120 - Suc n mod 64) mod 64 = (119 - n mod 64) mod 64"
  by (simp add: mod_Suc)

lemma sha1_message_eq: "sha1_message m = fips_pad m"
  by (simp add: sha1_message_def fips_pad_def sha1_pad_loop_replicate pad_zeros_Suc mult.commute)

lemma length_fips_pad: "length (fips_pad m) mod 64 = 0"
proof -
  let ?s = "Suc (length m) mod 64"
  have "(?s + 8 + (120 - ?s) mod 64) mod 64 = 0"
    by (rule pad_zeros_fill) simp
  then have "(Suc (length m) + 8 + (120 - ?s) mod 64) mod 64 = 0"
    by (metis mod_add_left_eq)
  then show ?thesis
    by (simp add: fips_pad_def u64_to_be_bytes_def add.assoc flip: pad_zeros_Suc)
qed

subsection \<open>The message schedule\<close>

lemma fold_load_nth:
  assumes "n \<le> length w"
  shows "length (fold (\<lambda>i w. w[i := f i]) [0..<n] w) = length w"
    and "t < length w \<Longrightarrow> fold (\<lambda>i w. w[i := f i]) [0..<n] w ! t = (if t < n then f t else w ! t)"
  using assms by (induction n) (auto simp: nth_list_update)

lemma sha1_load_nth:
  "length (sha1_load block (replicate 80 0)) = 80"
  "t < 16 \<Longrightarrow> sha1_load block (replicate 80 0) ! t =
     u32_from_be_bytes (block ! (t * 4)) (block ! (t * 4 + 1)) (block ! (t * 4 + 2)) (block ! (t * 4 + 3))"
  unfolding sha1_load_def by (simp_all add: fold_load_nth)

lemma extend_invariant:
  fixes M :: "nat \<Rightarrow> u32"
  defines "step \<equiv> \<lambda>i w. w[i := word_rotl 1 (w ! (i - 3) XOR w ! (i - 8) XOR w ! (i - 14) XOR w ! (i - 16))]"
  assumes "length w = 80" "\<And>t. t < 16 \<Longrightarrow> w ! t = M t" "16 \<le> n" "n \<le> 80"
  shows "length (fold step [16..<n] w) = 80 \<and> (\<forall>t < n. fold step [16..<n] w ! t = fips_W M t)"
  using assms(4,5)
proof (induction n rule: dec_induct)
  case base
  then show ?case using assms(2,3) by (auto simp: fips_W.simps)
next
  case (step n)
  let ?w = "fold step [16..<n] w"
  have IH: "length ?w = 80" "\<And>t. t < n \<Longrightarrow> ?w ! t = fips_W M t"
    using step by auto
  have last: "fold step [16..<Suc n] w = ?w[n := word_rotl 1 (?w ! (n - 3) XOR ?w ! (n - 8) XOR ?w ! (n - 14) XOR ?w ! (n - 16))]"
    using step.hyps by (simp add: assms(1))
  have "word_rotl 1 (?w ! (n - 3) XOR ?w ! (n - 8) XOR ?w ! (n - 14) XOR ?w ! (n - 16)) = fips_W M n"
    using step.hyps IH(2) by (subst fips_W.simps) simp
  then show ?case
    unfolding last using IH step.prems by (auto simp: nth_list_update less_Suc_eq)
qed

lemma sha1_schedule_W:
  "length (sha1_schedule block) = 80"
  "t < 80 \<Longrightarrow> sha1_schedule block ! t =
     fips_W (\<lambda>t. u32_from_be_bytes (block ! (t * 4)) (block ! (t * 4 + 1)) (block ! (t * 4 + 2)) (block ! (t * 4 + 3))) t"
proof -
  have "16 \<le> (80 :: nat)" "80 \<le> (80 :: nat)" by simp_all
  note inv = extend_invariant [OF sha1_load_nth(1) sha1_load_nth(2) this]
  show "length (sha1_schedule block) = 80"
    unfolding sha1_schedule_def sha1_extend_def by (rule inv [THEN conjunct1])
  show "sha1_schedule block ! t = fips_W (\<lambda>t. u32_from_be_bytes (block ! (t * 4)) (block ! (t * 4 + 1))
      (block ! (t * 4 + 2)) (block ! (t * 4 + 3))) t" if "t < 80"
    unfolding sha1_schedule_def sha1_extend_def using inv [THEN conjunct2] that by blast
qed

subsection \<open>The rounds\<close>

lemma f_k_eq: "sha1_f_k t b c d = (fips_f t b c d, fips_K t)"
proof -
  have ch: "(b AND c) OR (NOT b AND d) = (b AND c) XOR (NOT b AND d)"
    by (rule bit_word_eqI) (auto simp: bit_simps)
  have maj: "(b AND c) OR (b AND d) OR (c AND d) = (b AND c) XOR (b AND d) XOR (c AND d)"
    by (rule bit_word_eqI) (auto simp: bit_simps)
  show ?thesis
    by (simp add: sha1_f_k_def fips_f_def fips_K_def ch maj)
qed

lemma rounds_eq: "fold sha1_round (enumerate 0 w) s = fips_vars (\<lambda>t. w ! t) s (length w)"
proof (induction w rule: rev_induct)
  case (snoc x w)
  have pre: "fips_vars (\<lambda>t. (w @ [x]) ! t) s n = fips_vars (\<lambda>t. w ! t) s n" if "n \<le> length w" for n
    using that by (induction n) (simp_all add: nth_append)
  obtain a b c d e where v: "fips_vars (\<lambda>t. w ! t) s (length w) = (a, b, c, d, e)"
    by (cases "fips_vars (\<lambda>t. w ! t) s (length w)")
  show ?case
    by (simp add: enumerate_append_eq snoc.IH pre v f_k_eq)
qed simp

lemma fips_vars_cong: "(\<And>t. t < n \<Longrightarrow> W t = W' t) \<Longrightarrow> fips_vars W s n = fips_vars W' s n"
  by (induction n) (simp_all add: case_prod_unfold)

subsection \<open>The blocks\<close>

lemma chunks_exact_blocks:
  assumes "0 < k"
  shows "chunks_exact k xs = map (\<lambda>i. take k (drop (k * i) xs)) [0..<length xs div k]"
  using assms
proof (induction k xs rule: chunks_exact.induct)
  case (1 k xs)
  show ?case
  proof (cases "length xs < k")
    case True
    with "1.prems" show ?thesis by (simp add: chunks_exact.simps)
  next
    case False
    then have len: "length xs div k = Suc (length (drop k xs) div k)"
      using "1.prems" by (simp add: div_if)
    have "chunks_exact k xs = take k xs # map (\<lambda>i. take k (drop (k * i) (drop k xs))) [0..<length (drop k xs) div k]"
      using False "1" by (simp add: chunks_exact.simps [of k xs])
    also have "\<dots> = map (\<lambda>i. take k (drop (k * i) xs)) (0 # map Suc [0..<length (drop k xs) div k])"
      by (simp add: add.commute)
    also have "0 # map Suc [0..<length (drop k xs) div k] = [0..<length xs div k]"
      unfolding len by (simp only: map_Suc_upt upt_conv_Cons zero_less_Suc)
    finally show ?thesis .
  qed
qed

lemma sha1_block_step:
  assumes "64 * i + 64 \<le> length m"
  shows "sha1_block (take 64 (drop (64 * i) m)) [h0, h1, h2, h3, h4] =
    (case fips_vars (fips_W (fips_block_word m i)) (h0, h1, h2, h3, h4) 80 of (a, b, c, d, e) \<Rightarrow>
       [h0 + a, h1 + b, h2 + c, h3 + d, h4 + e])"
proof -
  let ?block = "take 64 (drop (64 * i) m)"
  have W: "sha1_schedule ?block ! t = fips_W (fips_block_word m i) t" if "t < 80" for t
  proof -
    have words: "fips_W f t = fips_W g t" if "\<And>t. t < 16 \<Longrightarrow> f t = g t" for f g :: "nat \<Rightarrow> u32" and t
      using that
    proof (induction f t rule: fips_W.induct)
      case (1 f t)
      then show ?case
        by (cases "t < 16") (simp_all add: fips_W.simps [of f t] fips_W.simps [of g t])
    qed
    show ?thesis
      unfolding sha1_schedule_W(2) [OF that]
      using assms by (intro words) (simp add: fips_block_word_def Let_def mult.commute add.assoc)
  qed
  then have "fips_vars (\<lambda>t. sha1_schedule ?block ! t) s 80 = fips_vars (fips_W (fips_block_word m i)) s 80" for s
    by (rule fips_vars_cong)
  then show ?thesis
    by (simp add: sha1_block_def rounds_eq sha1_schedule_W(1))
qed

lemma sha1_blocks_H:
  assumes "64 * n \<le> length m"
  shows "fold sha1_block (map (\<lambda>i. take 64 (drop (64 * i) m)) [0..<n]) sha1_iv =
    (case fips_H m n of (h0, h1, h2, h3, h4) \<Rightarrow> [h0, h1, h2, h3, h4])"
  using assms
proof (induction n)
  case 0
  then show ?case by (simp add: sha1_iv_def)
next
  case (Suc n)
  obtain h0 h1 h2 h3 h4 where H: "fips_H m n = (h0, h1, h2, h3, h4)"
    by (cases "fips_H m n")
  with Suc show ?case
    by (simp add: sha1_block_step split: prod.splits)
qed

lemma sha1_eq_fips: "sha1 data = fips_sha1 data"
proof -
  let ?m = "fips_pad data"
  have "64 * (length ?m div 64) \<le> length ?m" by simp
  note blocks = sha1_blocks_H [OF this]
  obtain h0 h1 h2 h3 h4 where "fips_H ?m (length ?m div 64) = (h0, h1, h2, h3, h4)"
    by (cases "fips_H ?m (length ?m div 64)")
  then show ?thesis
    unfolding sha1_def fips_sha1_def sha1_message_eq
    by (simp add: chunks_exact_blocks blocks)
qed

lemma length_sha1 [simp]: "length (sha1 data) = 20"
  unfolding sha1_eq_fips fips_sha1_def
  by (simp add: u32_to_be_bytes_def case_prod_unfold)

text \<open>
  C35: the hand-written \<^verbatim>\<open>sha1\<close> computes SHA-1 as FIPS 180-4 defines it, for every message:
  same padding, same blocks, and the in-place schedule and the or-based \<open>Ch\<close> and \<open>Maj\<close> agree
  with the standard's recursive schedule and exclusive-or forms.
\<close>

theorem sha1_is_fips_sha1: "sha1 data = fips_sha1 data"
  by (rule sha1_eq_fips)

end
