(* ===== verification/Uuid_V5.thy ===== *)
theory Uuid_V5
  imports Sha1_Digest
begin

text \<open>
  \<^verbatim>\<open>uuid_v5\<close> and \<^verbatim>\<open>uuid_eq\<close> of \<^verbatim>\<open>src/src/lib.rs\<close>. \<^verbatim>\<open>uuid_eq\<close> walks the string's \<^verbatim>\<open>char\<close>s and
  lower-cases them by Unicode's rules. ASCII characters are modelled here; the lower-case
  mapping of the other characters is the parameter \<open>ulower\<close>, from the UTF-8 bytes of one
  character to the UTF-8 bytes of its lower-case form. The one fact used about it is
  \<open>ulower_not_hex\<close>: no non-ASCII character lower-cases to hexadecimal digits only (in Unicode,
  only U+212A and U+0130 have ASCII letters in their lower-case form, \<open>k\<close> and \<open>i\<close>).
\<close>

definition slice :: "'a list \<Rightarrow> nat \<Rightarrow> nat \<Rightarrow> 'a list" where
  "slice xs i j = take (j - i) (drop i xs)"

text \<open>The sixteen bytes of the UUID: the digest's first 16 with version and variant set.\<close>

definition uuid_v5_bytes :: "bytes \<Rightarrow> bytes \<Rightarrow> bytes" where
  "uuid_v5_bytes namespace name =
     (let d = sha1 (namespace @ name);
          b = take 16 d;
          b = b[6 := (b ! 6 AND 0x0f) OR 0x50];
          b = b[8 := (b ! 8 AND 0x3f) OR 0x80]
      in b)"

definition uuid_v5 :: "bytes \<Rightarrow> bytes \<Rightarrow> string" where
  "uuid_v5 namespace name =
     (let h = hex_encode (uuid_v5_bytes namespace name)
      in slice h 0 8 @ ''-'' @ slice h 8 12 @ ''-'' @ slice h 12 16 @ ''-'' @ slice h 16 20
         @ ''-'' @ slice h 20 32)"

text \<open>\<^verbatim>\<open>s.chars()\<close> on UTF-8 bytes: an ASCII byte alone, or a lead byte with its continuation bytes.\<close>

definition is_continuation :: "u8 \<Rightarrow> bool" where
  "is_continuation b \<longleftrightarrow> 0x80 \<le> b \<and> b < 0xc0"

function utf8_chars :: "bytes \<Rightarrow> bytes list" where
  "utf8_chars [] = []"
| "utf8_chars (b # bs) =
     (if b < 0x80 then [b] # utf8_chars bs
      else (b # takeWhile is_continuation bs) # utf8_chars (dropWhile is_continuation bs))"
  by pat_completeness auto
termination
  by (relation "measure length") (auto simp: le_imp_less_Suc length_dropWhile_le)

definition ascii_char :: "bytes \<Rightarrow> bool" where
  "ascii_char ch \<longleftrightarrow> (\<exists>b. ch = [b] \<and> b < 0x80)"

definition char_to_lowercase :: "(bytes \<Rightarrow> bytes) \<Rightarrow> bytes \<Rightarrow> bytes" where
  "char_to_lowercase ulower ch =
     (case ch of [b] \<Rightarrow> if b < 0x80 then [to_ascii_lowercase b] else ulower ch | _ \<Rightarrow> ulower ch)"

definition uuid_norm :: "(bytes \<Rightarrow> bytes) \<Rightarrow> string \<Rightarrow> bytes" where
  "uuid_norm ulower s =
     concat (map (char_to_lowercase ulower) (filter (\<lambda>ch. ch \<noteq> as_bytes ''-'') (utf8_chars (as_bytes s))))"

definition uuid_eq :: "(bytes \<Rightarrow> bytes) \<Rightarrow> string \<Rightarrow> string \<Rightarrow> bool" where
  "uuid_eq ulower a b \<longleftrightarrow> uuid_norm ulower a = uuid_norm ulower b"

definition ulower_not_hex :: "(bytes \<Rightarrow> bytes) \<Rightarrow> bool" where
  "ulower_not_hex ulower \<longleftrightarrow> (\<forall>ch. \<not> ascii_char ch \<longrightarrow> (\<exists>b \<in> set (ulower ch). hex_val b = None))"

subsection \<open>Layout\<close>

lemma length_uuid_v5_bytes [simp]: "length (uuid_v5_bytes ns name) = 16"
  by (simp add: uuid_v5_bytes_def Let_def)

lemma uuid_v5_bytes_version:
  "drop_bit 4 (uuid_v5_bytes ns name ! 6) = 5" "drop_bit 6 (uuid_v5_bytes ns name ! 8) = 2"
proof -
  have v: "drop_bit 4 ((b AND 0x0f) OR 0x50) = (5 :: u8)" for b :: u8
    by (rule u8_eqI) (simp_all add: bit_simps bit_u8_high)
  have r: "drop_bit 6 ((b AND 0x3f) OR 0x80) = (2 :: u8)" for b :: u8
    by (rule u8_eqI) (simp_all add: bit_simps bit_u8_high)
  show "drop_bit 4 (uuid_v5_bytes ns name ! 6) = 5" "drop_bit 6 (uuid_v5_bytes ns name ! 8) = 2"
    by (simp_all add: uuid_v5_bytes_def Let_def v r del: drop_bit_or drop_bit_and)
qed

lemma slices_concat:
  "length h = 32 \<Longrightarrow> slice h 0 8 @ slice h 8 12 @ slice h 12 16 @ slice h 16 20 @ slice h 20 32 = h"
proof -
  have step: "i \<le> j \<Longrightarrow> slice h i j @ drop j h = drop i h" for i j
    unfolding slice_def by (metis append_take_drop_id drop_drop le_add_diff_inverse2)
  assume "length h = 32"
  then have "slice h 20 32 = drop 20 h" by (simp add: slice_def)
  then show ?thesis
    using step [of 16 20] step [of 12 16] step [of 8 12] step [of 0 8] by simp
qed

lemma length_uuid_v5: "length (uuid_v5 ns name) = 36"
  by (simp add: uuid_v5_def Let_def slice_def)

lemma slice_nth: "k < j - i \<Longrightarrow> j \<le> length xs \<Longrightarrow> slice xs i j ! k = xs ! (i + k)"
  by (simp add: slice_def)

lemma length_slice: "j \<le> length xs \<Longrightarrow> length (slice xs i j) = j - i"
  by (simp add: slice_def)

lemma hex_encode_no_hyphen: "filter (\<lambda>c. c \<noteq> CHR ''-'') (hex_encode bs) = hex_encode bs"
proof (rule filter_True)
  have "hex_val (of_char CHR ''-'') = None" by (simp add: hex_val_def)
  moreover have "c \<in> set (hex_encode bs) \<Longrightarrow> hex_val (of_char c) \<noteq> None" for c
    using hex_encode_digits [of "of_char c" bs] by (simp add: as_bytes_def)
  ultimately show "\<forall>c \<in> set (hex_encode bs). c \<noteq> CHR ''-''" by blast
qed

lemma uuid_v5_without_hyphens:
  "filter (\<lambda>c. c \<noteq> CHR ''-'') (uuid_v5 ns name) = hex_encode (uuid_v5_bytes ns name)"
proof -
  let ?h = "hex_encode (uuid_v5_bytes ns name)"
  have "slice ?h 0 8 @ slice ?h 8 12 @ slice ?h 12 16 @ slice ?h 16 20 @ slice ?h 20 32 = ?h"
    by (rule slices_concat) simp
  moreover have "filter (\<lambda>c. c \<noteq> CHR ''-'') (uuid_v5 ns name) =
      filter (\<lambda>c. c \<noteq> CHR ''-'') (slice ?h 0 8 @ slice ?h 8 12 @ slice ?h 12 16 @ slice ?h 16 20 @ slice ?h 20 32)"
    by (simp add: uuid_v5_def Let_def)
  ultimately show ?thesis by (simp only: hex_encode_no_hyphen)
qed

lemma variant_nibble: "drop_bit 6 b = (2 :: u8) \<Longrightarrow> drop_bit 4 b \<in> {8, 9, 10, 11}"
proof -
  assume "drop_bit 6 b = (2 :: u8)"
  then have "unat b div 64 = 2"
    using unat_drop_bit_eq [of 6 b] by (simp add: drop_bit_eq_div)
  then have "unat b div 16 \<in> {8, 9, 10, 11}" by auto
  moreover have "unat (drop_bit 4 b) = unat b div 16"
    by (simp only: unat_drop_bit_eq) (simp add: drop_bit_eq_div)
  ultimately have "unat (drop_bit 4 b) \<in> {8, 9, 10, 11}" by simp
  then have "(word_of_nat (unat (drop_bit 4 b)) :: u8) \<in> word_of_nat ` ({8, 9, 10, 11} :: nat set)" by blast
  then show ?thesis by simp
qed

text \<open>
  \<^verbatim>\<open>uuid_v5\<close> always yields a well-formed version-5 UUID: 36 characters, hyphens at the RFC 4122
  positions, version digit 5, variant digit 8, 9, a or b, and without the hyphens exactly the
  lower-case hexadecimal of the digest's first sixteen bytes with version and variant set.
\<close>

theorem uuid_v5_well_formed:
  "length (uuid_v5 ns name) = 36
   \<and> map (\<lambda>i. uuid_v5 ns name ! i) [8, 13, 18, 23] = ''----''
   \<and> uuid_v5 ns name ! 14 = CHR ''5''
   \<and> uuid_v5 ns name ! 19 \<in> set ''89ab''
   \<and> hex_decode (filter (\<lambda>c. c \<noteq> CHR ''-'') (uuid_v5 ns name)) = Some (uuid_v5_bytes ns name)"
proof -
  let ?b = "uuid_v5_bytes ns name"
  let ?h = "hex_encode ?b"
  have at: "uuid_v5 ns name ! 14 = ?h ! (2 * 6)" "uuid_v5 ns name ! 19 = ?h ! (2 * 8)"
    "map (\<lambda>i. uuid_v5 ns name ! i) [8, 13, 18, 23] = ''----''"
    by (simp_all add: uuid_v5_def Let_def nth_append length_slice slice_nth)
  have "uuid_v5 ns name ! 14 = CHR ''5''"
    unfolding at by (subst hex_encode_nth_high) (simp_all add: uuid_v5_bytes_version HEX_def)
  moreover have "uuid_v5 ns name ! 19 \<in> set ''89ab''"
    using variant_nibble [OF uuid_v5_bytes_version(2) [of ns name]]
    unfolding at by (subst hex_encode_nth_high) (auto simp: HEX_def)
  ultimately show ?thesis
    using at(3) by (simp add: length_uuid_v5 uuid_v5_without_hyphens del: list.map)
qed

subsection \<open>Comparison\<close>

lemma high_byte_not_hex: "\<not> b < 0x80 \<Longrightarrow> hex_val b = None \<and> to_ascii_lowercase b = b"
  by (auto simp: hex_val_def to_ascii_lowercase_def word_less_nat_alt word_le_nat_alt)

lemma utf8_chars_ascii: "list_all (\<lambda>b. b < 0x80) bs \<Longrightarrow> utf8_chars bs = map (\<lambda>b. [b]) bs"
  by (induction bs) auto

lemma utf8_chars_non_ascii: "\<exists>b \<in> set bs. \<not> b < 0x80 \<Longrightarrow> \<exists>ch \<in> set (utf8_chars bs). \<not> ascii_char ch"
proof (induction bs rule: utf8_chars.induct)
  case (2 b bs)
  then show ?case by (cases "b < 0x80") (auto simp: ascii_char_def)
qed simp

lemma norm_ascii:
  assumes "list_all (\<lambda>b. b < 0x80) (as_bytes s)"
  shows "uuid_norm ulower s = map to_ascii_lowercase (as_bytes (filter (\<lambda>c. c \<noteq> CHR ''-'') s))"
proof -
  have "concat (map (char_to_lowercase ulower) (filter (\<lambda>ch. ch \<noteq> [0x2d]) (map (\<lambda>b. [b]) bs)))
      = map to_ascii_lowercase (filter (\<lambda>b. b \<noteq> 0x2d) bs)" if "list_all (\<lambda>b. b < 0x80) bs" for bs
    using that by (induction bs) (auto simp: char_to_lowercase_def)
  moreover have "filter (\<lambda>b. b \<noteq> 0x2d) (as_bytes s) = as_bytes (filter (\<lambda>c. c \<noteq> CHR ''-'') s)"
  proof -
    have "(of_char c = (0x2d :: u8)) \<longleftrightarrow> c = CHR ''-''" for c
      using of_char_byte_inject [of c "CHR ''-''"] by simp
    then show ?thesis by (induction s) simp_all
  qed
  ultimately show ?thesis
    using assms by (simp add: uuid_norm_def utf8_chars_ascii)
qed

lemma norm_non_ascii:
  assumes "ulower_not_hex ulower" "\<not> list_all (\<lambda>b. b < 0x80) (as_bytes s)"
  shows "\<exists>b \<in> set (uuid_norm ulower s). hex_val b = None"
proof -
  obtain ch where ch: "ch \<in> set (utf8_chars (as_bytes s))" "\<not> ascii_char ch"
    using assms(2) utf8_chars_non_ascii by (auto simp: list_all_iff)
  then have "ch \<noteq> as_bytes ''-''" by (auto simp: ascii_char_def)
  moreover have "char_to_lowercase ulower ch = ulower ch"
    using ch(2) by (auto simp: char_to_lowercase_def ascii_char_def split: list.splits)
  moreover obtain b where "b \<in> set (ulower ch)" "hex_val b = None"
    using assms(1) ch(2) by (auto simp: ulower_not_hex_def)
  ultimately show ?thesis
    using ch(1) by (auto simp: uuid_norm_def intro!: exI [of _ ch])
qed

lemma uuid_v5_ascii: "list_all (\<lambda>b. b < 0x80) (as_bytes (uuid_v5 ns name))"
proof -
  have "b < 0x80" if "b \<in> set (as_bytes (filter (\<lambda>c. c \<noteq> CHR ''-'') (uuid_v5 ns name)))" for b
    using that hex_encode_digits high_byte_not_hex unfolding uuid_v5_without_hyphens by blast
  then have "of_char c < (0x80 :: u8)" if "c \<in> set (uuid_v5 ns name)" for c
    using that by (cases "c = CHR ''-''") (auto simp: as_bytes_def)
  then show ?thesis by (simp add: list_all_iff as_bytes_def)
qed

lemma uuid_eq_iff_decode:
  assumes "ulower_not_hex ulower"
  shows "uuid_eq ulower (uuid_v5 ns name) got \<longleftrightarrow>
    hex_decode (filter (\<lambda>c. c \<noteq> CHR ''-'') got) = Some (uuid_v5_bytes ns name)"
proof -
  let ?hex = "as_bytes (hex_encode (uuid_v5_bytes ns name))"
  let ?got = "filter (\<lambda>c. c \<noteq> CHR ''-'') got"
  have expected: "uuid_norm ulower (uuid_v5 ns name) = ?hex"
    by (simp add: norm_ascii uuid_v5_ascii uuid_v5_without_hyphens lowercase_hex_encode)
  have decode: "hex_decode ?got = Some (uuid_v5_bytes ns name) \<longleftrightarrow> map to_ascii_lowercase (as_bytes ?got) = ?hex"
    by (simp add: hex_decode_iff eq_ignore_ascii_case_def lowercase_hex_encode)
  show ?thesis
  proof (cases "list_all (\<lambda>b. b < 0x80) (as_bytes got)")
    case True
    then show ?thesis
      unfolding uuid_eq_def expected decode by (auto simp: norm_ascii)
  next
    case False
    then obtain c where c: "c \<in> set got" "\<not> of_char c < (0x80 :: u8)"
      by (auto simp: list_all_iff as_bytes_def)
    then have "of_char c \<in> to_ascii_lowercase ` set (as_bytes ?got)"
      using high_byte_not_hex [of "of_char c"] by (force simp: as_bytes_def image_iff)
    then have "map to_ascii_lowercase (as_bytes ?got) \<noteq> ?hex"
      using c(2) high_byte_not_hex hex_encode_digits by (metis list.set_map)
    moreover have "uuid_norm ulower got \<noteq> ?hex"
      using norm_non_ascii [OF assms False] hex_encode_digits by fastforce
    ultimately show ?thesis
      unfolding uuid_eq_def expected decode by simp
  qed
qed

text \<open>
  C36: the appAccountToken comparison accepts exactly one 128-bit value. A string compares equal to
  \<^verbatim>\<open>uuid_v5(namespace, sub)\<close> under \<^verbatim>\<open>uuid_eq\<close> iff dropping its hyphens and decoding the rest as
  hexadecimal, in any case, gives the sixteen bytes of that UUID; no Unicode spelling slips in.
\<close>

theorem uuid_eq_exact:
  assumes "ulower_not_hex ulower"
  shows "uuid_eq ulower (uuid_v5 ns name) got \<longleftrightarrow>
    hex_decode (filter (\<lambda>c. c \<noteq> CHR ''-'') got) = Some (uuid_v5_bytes ns name)"
  using assms by (rule uuid_eq_iff_decode)

theorem uuid_eq_exact_witness:
  "uuid_eq (\<lambda>_. [0x6b]) (uuid_v5 [1] [2]) (hex_encode (uuid_v5_bytes [1] [2]))
   \<and> \<not> uuid_eq (\<lambda>_. [0x6b]) (uuid_v5 [1] [2]) ''x''"
proof -
  have h: "ulower_not_hex (\<lambda>_. [0x6b])"
    by (simp add: ulower_not_hex_def hex_val_def)
  show ?thesis
    using uuid_eq_exact [OF h, of "[1]" "[2]" "hex_encode (uuid_v5_bytes [1] [2])"]
      uuid_eq_exact [OF h, of "[1]" "[2]" "''x''"]
    by (simp add: hex_encode_no_hyphen) (simp add: hex_decode_def)
qed

end
