(* ===== verification/Enroll.thy ===== *)
theory Enroll
  imports App_State Apple_Jwks Storekit Uuid_V5
begin

text \<open>
  \<^verbatim>\<open>POST /enroll\<close> (\<^verbatim>\<open>handler\<close> in \<^verbatim>\<open>src/src/enroll.rs\<close>). The crates it calls are the record
  \<open>enroll_libs\<close>; \<open>client\<close> is the request extension that the TLS layer sets, \<open>csprng\<close> the random
  bytes. The handler returns its response, or the panic it dies with, and the state after it.
\<close>

record enroll_request =
  apple_identity_jwt :: string
  storekit_jws :: string

record ('k, 'c, 'p) enroll_libs =
  jwt_apple :: "('k, apple_claims) jwt_lib"
  jwt_storekit :: "('k, storekit_payload) jwt_lib"
  x509 :: "('c, 'p) x509_lib"
  sha256 :: "bytes \<Rightarrow> bytes"
  from_ec_der :: "bytes \<Rightarrow> 'k"
  unicode_lower :: "bytes \<Rightarrow> bytes"

definition enroll_handler ::
  "('k, 'c, 'p) enroll_libs \<Rightarrow> bytes option \<Rightarrow> ('k, 'v) app_state \<Rightarrow> pubkey option \<Rightarrow> enroll_request \<Rightarrow>
   string response outcome \<times> ('k, 'v) app_state" where
  "enroll_handler libs csprng st client req =
     (case client of None \<Rightarrow> (Return (err FORBIDDEN ''no client certificate''), st)
      | Some client_pk \<Rightarrow>
        (let a = trust st in
         case verify_apple_jwt (jwt_apple libs) (apple_identity_jwt req) (apple_jwt_keys a) (apple_issuer a) (apple_audience a) of
           None \<Rightarrow> (Return (err UNAUTHORIZED ''apple jwt invalid''), st)
         | Some claims \<Rightarrow>
           (case verify_storekit_jws (jwt_storekit libs) (x509 libs) (sha256 libs) (from_ec_der libs)
                   (storekit_jws req) (storekit_root_sha256 a) (storekit_bundle_id a) of
              Panic msg \<Rightarrow> (Panic msg, st)
            | Return None \<Rightarrow> (Return (err UNAUTHORIZED ''storekit jws invalid''), st)
            | Return (Some tx) \<Rightarrow>
              (let expected = uuid_v5 (appaccount_namespace a) (as_bytes (sub claims)) in
               if \<not> (case app_account_token tx of Some got \<Rightarrow> uuid_eq (unicode_lower libs) expected got | None \<Rightarrow> False)
               then (Return (err FORBIDDEN ''appAccountToken mismatch''), st)
               else
                 (let mh = sha256 libs (as_bytes (sub claims) @ as_bytes (original_transaction_id tx)) in
                  if \<not> in_manifest (cohort st) client_pk mh
                  then (Return (err FORBIDDEN ''not in cohort manifest''), st)
                  else (case random_32 csprng of
                          Panic msg \<Rightarrow> (Panic msg, st)
                        | Return buf \<Rightarrow>
                          (let token = b64url_nopad buf;
                               entry = \<lparr>client_pubkey = client_pk, member_hash = mh, session_token = token,
                                        original_tx_id = original_transaction_id tx\<rparr>;
                               (ok, s') = member_insert entry (members st)
                           in if \<not> ok then (Return (err TOO_MANY_REQUESTS ''device cap reached''), st\<lparr>members := s'\<rparr>)
                              else (Return (ok_json token), st\<lparr>members := s'\<rparr>))))))))"

subsection \<open>The enrolment policy\<close>

definition member_hash_of :: "('k, 'c, 'p) enroll_libs \<Rightarrow> apple_claims \<Rightarrow> storekit_payload \<Rightarrow> bytes" where
  "member_hash_of libs claims tx = sha256 libs (as_bytes (sub claims) @ as_bytes (original_transaction_id tx))"

text \<open>
  What the code asks of a request: both credentials verify against the anchors, the purchase is
  bound to the Apple account by the UUID derived from its subject, and the manifest lists the
  client's key together with the hash of subject and transaction.
\<close>

definition enroll_policy ::
  "('k, 'c, 'p) enroll_libs \<Rightarrow> ('k, 'v) app_state \<Rightarrow> pubkey \<Rightarrow> enroll_request \<Rightarrow> apple_claims \<Rightarrow> storekit_payload \<Rightarrow> bool" where
  "enroll_policy libs st pk req claims tx \<longleftrightarrow>
     verify_apple_jwt (jwt_apple libs) (apple_identity_jwt req) (apple_jwt_keys (trust st))
       (apple_issuer (trust st)) (apple_audience (trust st)) = Some claims \<and>
     verify_storekit_jws (jwt_storekit libs) (x509 libs) (sha256 libs) (from_ec_der libs) (storekit_jws req)
       (storekit_root_sha256 (trust st)) (storekit_bundle_id (trust st)) = Return (Some tx) \<and>
     (\<exists>got. app_account_token tx = Some got \<and>
        hex_decode (filter (\<lambda>c. c \<noteq> CHR ''-'') got) =
          Some (uuid_v5_bytes (appaccount_namespace (trust st)) (as_bytes (sub claims)))) \<and>
     (pk, member_hash_of libs claims tx) \<in> manifest_pairs (cohort st)"

definition enroll_entry ::
  "('k, 'c, 'p) enroll_libs \<Rightarrow> pubkey \<Rightarrow> apple_claims \<Rightarrow> storekit_payload \<Rightarrow> bytes \<Rightarrow> member_entry" where
  "enroll_entry libs pk claims tx buf =
     \<lparr>client_pubkey = pk, member_hash = member_hash_of libs claims tx,
      session_token = b64url_nopad buf, original_tx_id = original_transaction_id tx\<rparr>"

text \<open>The handler's cases: the request is granted, or it fails and leaves the state alone.\<close>

lemma enroll_cases:
  assumes "ulower_not_hex (unicode_lower libs)"
  obtains
    pk claims tx buf where "client = Some pk" "enroll_policy libs st pk req claims tx" "csprng = Some buf"
      "enroll_handler libs csprng st client req =
        (Return (ok_json (b64url_nopad buf)), st\<lparr>members := snd (member_insert (enroll_entry libs pk claims tx buf) (members st))\<rparr>)"
  | pk claims tx where "client = Some pk" "enroll_policy libs st pk req claims tx" "csprng = None"
      "enroll_handler libs csprng st client req = (Panic ''system CSPRNG unavailable'', st)"
  | code msg where "code \<in> {UNAUTHORIZED, FORBIDDEN}"
      "\<And>pk claims tx. client = Some pk \<Longrightarrow> \<not> enroll_policy libs st pk req claims tx"
      "enroll_handler libs csprng st client req = (Return (err code msg), st)"
proof (cases "\<exists>pk claims tx. client = Some pk \<and> enroll_policy libs st pk req claims tx")
  case True
  then obtain pk claims tx where c: "client = Some pk" and p: "enroll_policy libs st pk req claims tx" by blast
  have checks: "in_manifest (cohort st) pk (member_hash_of libs claims tx)"
    "case app_account_token tx of
       Some got \<Rightarrow> uuid_eq (unicode_lower libs) (uuid_v5 (appaccount_namespace (trust st)) (as_bytes (sub claims))) got
     | None \<Rightarrow> False"
    using p by (auto simp: enroll_policy_def in_manifest_pairs uuid_eq_iff_decode [OF assms])
  have "enroll_handler libs csprng st client req =
      (case csprng of None \<Rightarrow> (Panic ''system CSPRNG unavailable'', st)
       | Some buf \<Rightarrow> (Return (ok_json (b64url_nopad buf)),
           st\<lparr>members := snd (member_insert (enroll_entry libs pk claims tx buf) (members st))\<rparr>))"
    using p checks
    by (auto simp: enroll_handler_def enroll_policy_def c member_hash_of_def random_32_def enroll_entry_def
        member_insert_result Let_def case_prod_unfold split: option.splits)
  then show thesis using that(1,2) [OF c p] by (cases csprng) auto
next
  case False
  have "\<exists>code \<in> {UNAUTHORIZED, FORBIDDEN}. \<exists>msg. enroll_handler libs csprng st client req = (Return (err code msg), st)"
  proof (cases client)
    case (Some pk)
    obtain r where r: "verify_storekit_jws (jwt_storekit libs) (x509 libs) (sha256 libs) (from_ec_der libs) (storekit_jws req)
       (storekit_root_sha256 (trust st)) (storekit_bundle_id (trust st)) = Return r"
      using storekit_returns by blast
    show ?thesis
      using False Some r
      by (auto simp: enroll_handler_def enroll_policy_def member_hash_of_def Let_def in_manifest_pairs
          uuid_eq_iff_decode [OF assms] split: option.splits)
  qed (simp add: enroll_handler_def)
  then show thesis using that(3) False by blast
qed

subsection \<open>What /enroll promises\<close>

text \<open>
  C7: /enroll hands out a bearer exactly to requests that satisfy the enrolment policy on a
  connection with a client key, when the random generator works; the bearer is the base64url form
  of the generator's bytes.
\<close>

theorem enroll_grants_exactly_policy:
  assumes "ulower_not_hex (unicode_lower libs)"
  shows "fst (enroll_handler libs csprng st client req) = Return (ok_json t) \<longleftrightarrow>
    (\<exists>pk claims tx buf. client = Some pk \<and> enroll_policy libs st pk req claims tx \<and>
       csprng = Some buf \<and> t = b64url_nopad buf)"
  by (rule enroll_cases [OF assms, of client st req csprng]) auto

text \<open>
  C8: a granted request changes the store by that one enrolment: the new bearer resolves to the
  client's key with the member hash of the manifest line it matched. Every other request leaves
  the state unchanged and is answered 401 or 403 (429 is never produced); the handler panics
  only when the random generator fails.
\<close>

theorem enroll_effect:
  assumes "ulower_not_hex (unicode_lower libs)" "store_wf (members st)"
    "\<And>buf. csprng = Some buf \<Longrightarrow> \<not> contains_token (b64url_nopad buf) (members st)"
    and run: "enroll_handler libs csprng st client req = (out, st')"
  shows "case out of
      Panic msg \<Rightarrow> csprng = None \<and> st' = st
    | Return r \<Rightarrow>
        if status r = OK
        then \<exists>pk token e. client = Some pk \<and> r = ok_json token \<and>
               get_by_token token (members st') = Some e \<and> client_pubkey e = pk \<and>
               (pk, member_hash e) \<in> manifest_pairs (cohort st) \<and> st' = st\<lparr>members := members st'\<rparr>
        else status r \<in> {UNAUTHORIZED, FORBIDDEN} \<and> st' = st"
  using assms(1)
proof (cases rule: enroll_cases [of libs client st req csprng])
  case (1 pk claims tx buf)
  let ?e = "enroll_entry libs pk claims tx buf"
  have e: "session_token ?e = b64url_nopad buf" "client_pubkey ?e = pk" "member_hash ?e = member_hash_of libs claims tx"
    by (simp_all add: enroll_entry_def)
  have fresh: "\<not> contains_token (session_token ?e) (members st)" using assms(3) 1(3) e by simp
  have "get_by_token (session_token ?e) (snd (member_insert ?e (members st))) = Some ?e"
    unfolding get_by_token_iff [OF member_insert_wf [OF assms(2) fresh]]
    by (simp add: member_insert_live member_insert_member)
  moreover have "out = Return (ok_json (session_token ?e))" "st' = st\<lparr>members := snd (member_insert ?e (members st))\<rparr>"
    using run 1(4) e by simp_all
  moreover have "(pk, member_hash ?e) \<in> manifest_pairs (cohort st)" using 1(2) e by (simp add: enroll_policy_def)
  ultimately show ?thesis using 1(1) e(2) by auto
qed (use run in auto)

text \<open>
  C6: a bearer is only handed out on two independent signatures: an RS256 signature over the
  identity token under the pinned Apple key it names, and an ES256 signature over the purchase
  under the leaf key of a certificate chain that is signed link by link up to the pinned root.
\<close>

theorem enroll_requires_both_signatures:
  assumes "ulower_not_hex (unicode_lower libs)"
    and apple: "jwt_sound (jwt_apple libs) sig_ok exp_claim now"
    and store: "jwt_sound (jwt_storekit libs) sig_ok' expiry now"
    and grant: "fst (enroll_handler libs csprng st client req) = Return (ok_json t)"
  shows "(\<exists>h k key. decode_header (jwt_apple libs) (apple_identity_jwt req) = Some h \<and> kid h = Some k \<and>
       hm_get (apple_jwt_keys (trust st)) k = Some key \<and> sig_ok RS256 key (apple_identity_jwt req)) \<and>
    (\<exists>ders certs. x5c_chain (jwt_storekit libs) (x509 libs) (storekit_jws req) ders certs \<and>
       sha256 libs (last ders) = storekit_root_sha256 (trust st) \<and> chain_ok (x509 libs) certs \<and>
       sig_ok' ES256 (leaf_key (x509 libs) (from_ec_der libs) certs) (storekit_jws req))"
proof -
  obtain pk claims tx where p: "enroll_policy libs st pk req claims tx"
    using assms(1) grant by (cases rule: enroll_cases [of libs client st req csprng]) auto
  from p have v: "verify_apple_jwt (jwt_apple libs) (apple_identity_jwt req) (apple_jwt_keys (trust st))
       (apple_issuer (trust st)) (apple_audience (trust st)) = Some claims"
    and s: "verify_storekit_jws (jwt_storekit libs) (x509 libs) (sha256 libs) (from_ec_der libs) (storekit_jws req)
       (storekit_root_sha256 (trust st)) (storekit_bundle_id (trust st)) = Return (Some tx)"
    by (auto simp: enroll_policy_def)
  have "algorithms (storekit_validation (jwt_storekit libs)) = [ES256]"
    using jwt_sound_new(1) [OF store] by (simp add: storekit_validation_def)
  then have "sig_ok' ES256 k (storekit_jws req)"
    if "decode (jwt_storekit libs) (storekit_jws req) k (storekit_validation (jwt_storekit libs)) = Some tx" for k
    using jwt_sound_decode(1) [OF store that] by simp
  then have "\<exists>ders certs. x5c_chain (jwt_storekit libs) (x509 libs) (storekit_jws req) ders certs \<and>
       sha256 libs (last ders) = storekit_root_sha256 (trust st) \<and> chain_ok (x509 libs) certs \<and>
       sig_ok' ES256 (leaf_key (x509 libs) (from_ec_der libs) certs) (storekit_jws req)"
    using s unfolding storekit_accept_iff by blast
  moreover obtain h k key where "decode_header (jwt_apple libs) (apple_identity_jwt req) = Some h" "kid h = Some k"
    "hm_get (apple_jwt_keys (trust st)) k = Some key" "sig_ok RS256 key (apple_identity_jwt req)"
    using verify_apple_jwt_sig [OF apple v] by blast
  ultimately show ?thesis by blast
qed

subsection \<open>A concrete enrolment\<close>

text \<open>
  Crates that know one identity token and one purchase, a chain of two certificates (numbers, each
  signed by the next) and a constant hash, and a manifest that lists the one member.
\<close>

definition demo_x509 :: "(nat, nat) x509_lib" where
  "demo_x509 = \<lparr>from_der = (\<lambda>b. Some (length b)), public_key = (\<lambda>c. c), subject_public_key_data = (\<lambda>_. []),
     verify_signature = (\<lambda>c p. p = Suc c), validity_is_valid = (\<lambda>_. True),
     cert_basic_constraints = (\<lambda>_. Inr (Some \<lparr>ca = True, path_len_constraint = Some 0\<rparr>)),
     cert_key_usage = (\<lambda>_. Inr (Some True))\<rparr>"

definition demo_namespace :: bytes where "demo_namespace = [1, 2, 3]"

definition demo_tx :: storekit_payload where
  "demo_tx = \<lparr>bundle_id = APPLE_AUDIENCE, original_transaction_id = ''77'', transaction_id = ''78'', product_id = ''p'',
     app_account_token = Some (hex_encode (uuid_v5_bytes demo_namespace (as_bytes ''001.ab'')))\<rparr>"

definition demo_storekit_lib :: "(nat, storekit_payload) jwt_lib" where
  "demo_storekit_lib = \<lparr>
     decode_header = (\<lambda>_. Some \<lparr>alg = ES256, kid = None, x5c = Some [''QQ'', ''QUE'']\<rparr>),
     validation_new = demo_validation,
     decode = (\<lambda>t k v. if k = 2 \<and> ES256 \<in> set (algorithms v) \<and> (validate_exp v \<longrightarrow> 40 \<le> unat (leeway v))
                        then Some demo_tx else None)\<rparr>"

definition demo_libs :: "(nat, nat, nat) enroll_libs" where
  "demo_libs = \<lparr>jwt_apple = demo_apple_lib, jwt_storekit = demo_storekit_lib, x509 = demo_x509,
     sha256 = (\<lambda>_. [9]), from_ec_der = (\<lambda>_. 2), unicode_lower = (\<lambda>_. [0x6b])\<rparr>"

definition demo_state :: "(nat, nat) app_state" where
  "demo_state = \<lparr>boot = \<lparr>spki_sha256 = replicate 32 5\<rparr>, members = default_inner,
     cohort = \<lparr>cohort_id = ''c'', manifest_members = [\<lparr>pubkey = ''0401'', hash = ''09''\<rparr>]\<rparr>,
     trust = \<lparr>apple_jwt_keys = [(''K1'', 1)], apple_issuer = APPLE_ISSUER, apple_audience = APPLE_AUDIENCE,
       storekit_bundle_id = APPLE_AUDIENCE, storekit_root_sha256 = [9], appaccount_namespace = demo_namespace,
       orch_manage_pubkey = 0\<rparr>\<rparr>"

definition demo_request :: enroll_request where
  "demo_request = \<lparr>apple_identity_jwt = ''tok'', storekit_jws = ''jws''\<rparr>"

lemma demo_lower: "ulower_not_hex (unicode_lower demo_libs)"
  by (simp add: ulower_not_hex_def hex_val_def demo_libs_def)

lemma demo_apple: "verify_apple_jwt demo_apple_lib ''tok'' [(''K1'', 1)] APPLE_ISSUER APPLE_AUDIENCE = Some demo_claims"
  by (simp add: verify_apple_jwt_def demo_apple_lib_def apple_validation_def set_issuer_def set_audience_def
      set_required_spec_claims_def demo_validation_def hm_get_def demo_claims_def)

lemma demo_storekit:
  "verify_storekit_jws demo_storekit_lib demo_x509 (\<lambda>_. [9]) (\<lambda>_. 2) ''jws'' [9] APPLE_AUDIENCE = Return (Some demo_tx)"
proof -
  have b64: "b64_decode_any ''QQ'' = Some [0x41]" "b64_decode_any ''QUE'' = Some [0x41, 0x41]" by code_simp+
  show ?thesis
    by (simp add: verify_storekit_jws_def demo_storekit_lib_def b64 demo_x509_def storekit_validation_def
        demo_validation_def demo_tx_def)
qed

lemma demo_policy: "enroll_policy demo_libs demo_state [4, 1] demo_request demo_claims demo_tx"
proof -
  have m: "([4, 1], [9]) \<in> manifest_pairs (cohort demo_state)"
    unfolding in_manifest_pairs [symmetric] demo_state_def by code_simp
  have t: "app_account_token demo_tx =
      Some (hex_encode (uuid_v5_bytes demo_namespace (as_bytes (sub demo_claims))))"
    by (simp add: demo_tx_def demo_claims_def)
  show ?thesis
    unfolding enroll_policy_def t
    using m demo_apple demo_storekit
    by (simp add: demo_libs_def demo_state_def demo_request_def member_hash_of_def hex_encode_no_hyphen hex_decode_encode)
qed

definition demo_enroll :: "string response outcome \<times> (nat, nat) app_state" where
  "demo_enroll = enroll_handler demo_libs (Some (replicate 32 7)) demo_state (Some [4, 1]) demo_request"

theorem enroll_grants_exactly_policy_witness:
  "fst demo_enroll = Return (ok_json (b64url_nopad (replicate 32 7)))"
  unfolding demo_enroll_def using enroll_grants_exactly_policy [OF demo_lower] demo_policy by blast

lemma demo_granted: "fst demo_enroll = Return (ok_json (b64url_nopad (replicate 32 7)))"
  unfolding demo_enroll_def
  by (rule enroll_cases [OF demo_lower, of "Some [4, 1]" demo_state demo_request "Some (replicate 32 7)"])
    (use demo_policy in auto)

lemma demo_resolves: "\<exists>t e. get_by_token t (members (snd demo_enroll)) = Some e"
proof -
  let ?e = "enroll_entry demo_libs [4, 1] demo_claims demo_tx (replicate 32 7)"
  have uniq: "enroll_policy demo_libs demo_state [4, 1] demo_request claims tx \<Longrightarrow> claims = demo_claims \<and> tx = demo_tx" for claims tx
    using demo_apple demo_storekit
    by (auto simp: enroll_policy_def demo_libs_def demo_state_def demo_request_def)
  have "snd demo_enroll = demo_state\<lparr>members := snd (member_insert ?e (members demo_state))\<rparr>"
    unfolding demo_enroll_def
    by (rule enroll_cases [OF demo_lower, of "Some [4, 1]" demo_state demo_request "Some (replicate 32 7)"])
      (use demo_policy uniq in auto)
  moreover have "get_by_token (session_token ?e) (snd (member_insert ?e (members demo_state))) \<noteq> None"
    by (simp add: get_by_token_def member_insert_tokens member_insert_member)
  ultimately show ?thesis by auto
qed

theorem enroll_effect_witness:
  "\<exists>token e. fst demo_enroll = Return (ok_json token) \<and>
     get_by_token token (members (snd demo_enroll)) = Some e \<and> client_pubkey e = [4, 1]"
proof -
  have wf: "store_wf (members demo_state)" "\<And>t. \<not> contains_token t (members demo_state)"
    by (simp_all add: demo_state_def default_inner_wf)
      (simp add: contains_token_def hm_contains_def default_inner_def)
  have "enroll_handler demo_libs (Some (replicate 32 7)) demo_state (Some [4, 1]) demo_request = (fst demo_enroll, snd demo_enroll)"
    by (simp add: demo_enroll_def)
  from enroll_effect [OF demo_lower wf this] show ?thesis by (auto simp: demo_granted)
qed

theorem enroll_requires_both_signatures_witness:
  "\<exists>ders certs. x5c_chain demo_storekit_lib demo_x509 ''jws'' ders certs \<and> chain_ok demo_x509 certs \<and>
     2 = leaf_key demo_x509 (\<lambda>_. 2 :: nat) certs"
proof -
  have "jwt_sound demo_storekit_lib (\<lambda>a k t. k = 2) (\<lambda>_. 1000) 1040"
    by (auto simp: jwt_sound_def demo_storekit_lib_def demo_validation_def split: if_splits)
  then have store: "jwt_sound (jwt_storekit demo_libs) (\<lambda>a k t. k = 2) (\<lambda>_. 1000) 1040"
    by (simp add: demo_libs_def)
  have apple: "jwt_sound (jwt_apple demo_libs) demo_apple_signed exp_claim 1040"
    using demo_apple_lib_sound by (simp add: demo_libs_def)
  have grant: "fst (enroll_handler demo_libs (Some (replicate 32 7)) demo_state (Some [4, 1]) demo_request) =
      Return (ok_json (b64url_nopad (replicate 32 7)))"
    using demo_granted by (simp add: demo_enroll_def)
  from enroll_requires_both_signatures [OF demo_lower apple store grant] show ?thesis
    by (auto simp: demo_libs_def demo_request_def)
qed

end
