(* ===== verification/Manage.thy ===== *)
theory Manage
  imports App_State Base64_Codec
begin

text \<open>
  \<^verbatim>\<open>POST /manage\<close> (\<^verbatim>\<open>src/src/manage.rs\<close>): signed management actions. The \<^verbatim>\<open>p256\<close> signature
  functions and the JSON parser are the record \<open>manage_libs\<close> (\<open>'v\<close> a verifying key, \<open>'s\<close> a signature).
  The handler is \<open>manage_authenticate\<close> (everything before the replay guard, no state change), then
  \<open>note_nonce\<close>, then \<open>manage_apply\<close>; the last two are separate acquisitions of the store's lock.
\<close>

record manage_envelope =
  payload :: string
  signature :: string

record manage_action =
  action :: string
  nonce :: string
  action_member_hash :: "string option"

record ('v, 's) manage_libs =
  signature_from_slice :: "bytes \<Rightarrow> 's option"
  ecdsa_verify :: "'v \<Rightarrow> bytes \<Rightarrow> 's \<Rightarrow> bool"
  action_from_slice :: "bytes \<Rightarrow> manage_action option"

definition manage_authenticate ::
  "('v, 's) manage_libs \<Rightarrow> 'v \<Rightarrow> manage_envelope \<Rightarrow> bool response + manage_action" where
  "manage_authenticate libs orch_key env =
     (case (b64_decode_any (payload env), b64_decode_any (signature env)) of
        (Some payload_bytes, Some sig_bytes) \<Rightarrow>
          (case signature_from_slice libs sig_bytes of
             None \<Rightarrow> Inl (err UNAUTHORIZED ''malformed signature'')
           | Some sig \<Rightarrow>
               if \<not> ecdsa_verify libs orch_key payload_bytes sig then Inl (err UNAUTHORIZED ''signature invalid'')
               else (case action_from_slice libs payload_bytes of
                       None \<Rightarrow> Inl (err BAD_REQUEST ''malformed action'')
                     | Some a \<Rightarrow> Inr a))
      | _ \<Rightarrow> Inl (err UNAUTHORIZED ''malformed envelope''))"

definition revoke_target :: "manage_action \<Rightarrow> member_hash option" where
  "revoke_target a =
     (case action_member_hash a of None \<Rightarrow> None
      | Some h \<Rightarrow> (case hex_decode h of None \<Rightarrow> None | Some b \<Rightarrow> if length b = 32 then Some b else None))"

definition manage_apply ::
  "(pubkey, member) iteration \<Rightarrow> manage_action \<Rightarrow> inner \<Rightarrow> bool response \<times> inner" where
  "manage_apply iter a s =
     (if action a = ''revoke''
      then (case revoke_target a of
              None \<Rightarrow> (err BAD_REQUEST ''revoke requires 32-byte hex member_hash'', s)
            | Some mh \<Rightarrow> (let (revoked, s') = revoke_by_member_hash iter mh s in (ok_json revoked, s')))
      else (err BAD_REQUEST ''unknown action'', s))"

definition manage_handler ::
  "('v, 's) manage_libs \<Rightarrow> (pubkey, member) iteration \<Rightarrow> ('k, 'v) app_state \<Rightarrow> manage_envelope \<Rightarrow>
   bool response \<times> ('k, 'v) app_state" where
  "manage_handler libs iter st env =
     (case manage_authenticate libs (orch_manage_pubkey (trust st)) env of
        Inl r \<Rightarrow> (r, st)
      | Inr a \<Rightarrow>
          (let (fresh, s1) = note_nonce (nonce a) (members st) in
           if \<not> fresh then (err CONFLICT ''nonce replay'', st\<lparr>members := s1\<rparr>)
           else (let (r, s2) = manage_apply iter a s1 in (r, st\<lparr>members := s2\<rparr>))))"

subsection \<open>Authentication\<close>

text \<open>The orchestrator signed these exact payload bytes, and they are the action.\<close>

definition orchestrator_signed :: "('v, 's) manage_libs \<Rightarrow> 'v \<Rightarrow> manage_envelope \<Rightarrow> manage_action \<Rightarrow> bool" where
  "orchestrator_signed libs key env a \<longleftrightarrow>
     (\<exists>p b sig. b64_decode_any (payload env) = Some p \<and> b64_decode_any (signature env) = Some b \<and>
        signature_from_slice libs b = Some sig \<and> ecdsa_verify libs key p sig \<and> action_from_slice libs p = Some a)"

lemma manage_authenticate_Inr: "manage_authenticate libs key env = Inr a \<longleftrightarrow> orchestrator_signed libs key env a"
  by (auto simp: manage_authenticate_def orchestrator_signed_def split: option.splits)

lemma manage_authenticate_Inl:
  "manage_authenticate libs key env = Inl r \<Longrightarrow> status r \<in> {UNAUTHORIZED, BAD_REQUEST} \<and> (\<nexists>a. orchestrator_signed libs key env a)"
  by (auto simp: manage_authenticate_def orchestrator_signed_def split: option.splits if_splits)

lemma note_nonce_seen: "n \<in> seen_nonces s \<Longrightarrow> note_nonce n s = (False, s)"
  by (simp add: note_nonce_def insert_absorb)

lemma manage_signed:
  assumes "orchestrator_signed libs (orch_manage_pubkey (trust st)) env a"
  shows "manage_handler libs iter st env =
    (if nonce a \<in> seen_nonces (members st) then (err CONFLICT ''nonce replay'', st)
     else (let (r, s2) = manage_apply iter a (snd (note_nonce (nonce a) (members st))) in (r, st\<lparr>members := s2\<rparr>)))"
proof -
  have "manage_authenticate libs (orch_manage_pubkey (trust st)) env = Inr a"
    using assms by (simp add: manage_authenticate_Inr)
  then show ?thesis
    by (cases "nonce a \<in> seen_nonces (members st)")
      (simp_all add: manage_handler_def note_nonce_seen, simp add: note_nonce_def)
qed

lemma manage_unsigned:
  assumes "\<nexists>a. orchestrator_signed libs (orch_manage_pubkey (trust st)) env a"
  shows "snd (manage_handler libs iter st env) = st"
    "status (fst (manage_handler libs iter st env)) \<in> {UNAUTHORIZED, BAD_REQUEST}"
proof -
  obtain r where "manage_authenticate libs (orch_manage_pubkey (trust st)) env = Inl r"
    using assms unfolding manage_authenticate_Inr [symmetric] by (metis sumE)
  then show "snd (manage_handler libs iter st env) = st"
    "status (fst (manage_handler libs iter st env)) \<in> {UNAUTHORIZED, BAD_REQUEST}"
    using manage_authenticate_Inl [of libs "orch_manage_pubkey (trust st)" env r]
    by (simp_all add: manage_handler_def)
qed

lemma manage_apply_nonces:
  assumes "iteration_of iter" "store_wf s"
  shows "seen_nonces (snd (manage_apply iter a s)) = seen_nonces s"
  using revoke_frame(1) [OF assms]
  by (auto simp: manage_apply_def case_prod_unfold Let_def split: option.splits)

lemma note_nonce_wf: "store_wf (snd (note_nonce n s)) \<longleftrightarrow> store_wf s"
  by (rule store_wf_frame) simp_all

lemma note_nonce_inv: "store_inv (snd (note_nonce n s)) \<longleftrightarrow> store_inv s"
  using buckets_ok_frame [of "snd (note_nonce n s)" s] by (simp add: store_inv_def note_nonce_wf)

lemma manage_apply_inv:
  assumes "iteration_of iter" "store_inv s"
  shows "store_inv (snd (manage_apply iter a s))"
  using store_exec_inv [OF assms, of "Revoke _"] assms(2)
  by (auto simp: manage_apply_def case_prod_unfold Let_def split: option.splits)

lemma manage_inv:
  assumes "iteration_of iter" "store_inv (members st)"
  shows "store_inv (members (snd (manage_handler libs iter st env)))"
  using assms manage_apply_inv [OF assms(1)]
  by (auto simp: manage_handler_def case_prod_unfold Let_def note_nonce_inv split: sum.splits)

subsection \<open>What /manage promises\<close>

text \<open>A signed revoke for a hash that one key holds leaves none of that member's bearers valid.\<close>

lemma revoked_token_gone:
  assumes "iteration_of iter" "store_wf (members st)"
    "orchestrator_signed libs (orch_manage_pubkey (trust st)) env a" "nonce a \<notin> seen_nonces (members st)"
    "action a = ''revoke''" "revoke_target a = Some h"
    "get_by_token t (members st) = Some e" "member_hash e = h"
    and unique: "\<And>pk pk' m m'. hm_get (by_pubkey (members st)) pk = Some m \<Longrightarrow>
      hm_get (by_pubkey (members st)) pk' = Some m' \<Longrightarrow> stored_hash m = h \<Longrightarrow> stored_hash m' = h \<Longrightarrow> pk = pk'"
  shows "\<not> contains_token t (members (snd (manage_handler libs iter st env)))"
proof -
  let ?s1 = "snd (note_nonce (nonce a) (members st))"
  have wf1: "store_wf ?s1" using assms(2) by (simp add: note_nonce_wf)
  have run: "members (snd (manage_handler libs iter st env)) = snd (revoke_by_member_hash iter h ?s1)"
    using assms(4,5,6) by (simp add: manage_signed [OF assms(3)] manage_apply_def case_prod_unfold Let_def)
  have "get_by_token t ?s1 = Some e" using assms(7) by simp
  then have "get_by_token t (snd (revoke_by_member_hash iter h ?s1)) = None"
    using revoke_complete [OF assms(1) wf1, of h t] unique assms(8) by simp
  then show ?thesis
    using get_by_token_contains [OF revoke_wf [OF assms(1) wf1]] by (simp add: run)
qed

text \<open>
  C20: only the pinned orchestrator key can change the store through /manage. If the state after a
  request differs from the state before it, the payload was signed by that key and its nonce had not
  been seen; unsigned or malformed traffic burns no nonce and is answered 401 or 400.
\<close>

theorem manage_changes_only_signed:
  "(\<exists>a. orchestrator_signed libs (orch_manage_pubkey (trust st)) env a \<and> nonce a \<notin> seen_nonces (members st)) \<or>
   snd (manage_handler libs iter st env) = st \<and>
   status (fst (manage_handler libs iter st env)) \<in> {UNAUTHORIZED, BAD_REQUEST, CONFLICT}"
proof (cases "\<exists>a. orchestrator_signed libs (orch_manage_pubkey (trust st)) env a")
  case True
  then obtain a where "orchestrator_signed libs (orch_manage_pubkey (trust st)) env a" by blast
  then show ?thesis using manage_signed [of libs st env a iter] by auto
next
  case False
  then show ?thesis using manage_unsigned [OF False, of iter] by auto
qed

text \<open>
  C19: an accepted envelope cannot be replayed: once an envelope reached the replay guard, sending it
  again after any further store calls is answered 409 and changes nothing.
\<close>

theorem manage_replay_refused:
  assumes inv: "store_inv (members st)" and it: "iteration_of iter"
    and signed: "orchestrator_signed libs (orch_manage_pubkey (trust st)) env a"
    and run: "run_ok (store_allowed iter) (store_exec iter) (members (snd (manage_handler libs iter st env))) ops"
    and st': "st' = st\<lparr>members := fold (store_exec iter) ops (members (snd (manage_handler libs iter st env)))\<rparr>"
  shows "manage_handler libs iter st' env = (err CONFLICT ''nonce replay'', st')"
proof -
  let ?s1 = "members (snd (manage_handler libs iter st env))"
  have wf: "store_wf (members st)" using inv by (simp add: store_inv_def)
  have "nonce a \<in> seen_nonces ?s1"
    using manage_signed [OF signed, of iter] manage_apply_nonces [OF it, of "snd (note_nonce (nonce a) (members st))"] wf
    by (auto simp: case_prod_unfold Let_def note_nonce_wf) (simp add: note_nonce_def)
  moreover have "store_inv ?s1" using manage_inv [OF it inv] .
  ultimately have "nonce a \<in> seen_nonces (members st')"
    using store_run_nonces [OF _ run] st' by auto
  moreover have "orchestrator_signed libs (orch_manage_pubkey (trust st')) env a" using signed st' by simp
  ultimately show ?thesis using manage_signed [of libs st' env a iter] by simp
qed

definition demo_hash :: bytes where "demo_hash = replicate 32 7"

definition demo_manage_libs :: "(nat, bytes) manage_libs" where
  "demo_manage_libs = \<lparr>signature_from_slice = Some, ecdsa_verify = (\<lambda>k p sig. sig = p),
     action_from_slice = (\<lambda>p. Some \<lparr>action = ''revoke'', nonce = ''n1'',
       action_member_hash = Some (hex_encode demo_hash)\<rparr>)\<rparr>"

definition demo_envelope :: manage_envelope where
  "demo_envelope = \<lparr>payload = ''QQ'', signature = ''QQ==''\<rparr>"

definition demo_action :: manage_action where
  "demo_action = \<lparr>action = ''revoke'', nonce = ''n1'', action_member_hash = Some (hex_encode demo_hash)\<rparr>"

text \<open>A store with one member, whose hash is the one the demo envelope revokes.\<close>

definition manage_entry :: member_entry where
  "manage_entry = \<lparr>client_pubkey = [4, 1], member_hash = demo_hash, session_token = ''a'', original_tx_id = ''tx''\<rparr>"

definition manage_state :: "(nat, nat) app_state" where
  "manage_state = \<lparr>boot = \<lparr>spki_sha256 = []\<rparr>, members = snd (member_insert manage_entry default_inner),
     cohort = default_manifest,
     trust = \<lparr>apple_jwt_keys = [], apple_issuer = [], apple_audience = [], storekit_bundle_id = [],
       storekit_root_sha256 = [], appaccount_namespace = [], orch_manage_pubkey = 0\<rparr>\<rparr>"

lemma demo_signed: "orchestrator_signed demo_manage_libs (orch_manage_pubkey (trust manage_state)) demo_envelope demo_action"
proof -
  have "b64_decode_any ''QQ'' = Some [0x41]" "b64_decode_any ''QQ=='' = Some [0x41]" by code_simp+
  then show ?thesis
    by (simp add: orchestrator_signed_def demo_manage_libs_def demo_envelope_def demo_action_def)
qed

lemma manage_state_inv: "store_inv (members manage_state)"
proof -
  have "admissible default_inner (Insert manage_entry)"
    by (simp add: contains_token_def hm_contains_def default_inner_def)
  then show ?thesis
    using store_exec_inv [OF iteration_id default_inner_inv, of "Insert manage_entry"]
    by (simp add: manage_state_def)
qed

lemma manage_state_keys:
  "hm_get (by_pubkey (members manage_state)) pk = Some m \<longleftrightarrow> pk = [4, 1] \<and>
      m = \<lparr>stored_hash = demo_hash, stored_tx_id = ''tx'', sessions = [''a'']\<rparr>"
  by (auto simp: manage_state_def member_insert_member member_insert_live manage_entry_def default_inner_empty)

lemma manage_state_entry: "get_by_token ''a'' (members manage_state) = Some manage_entry"
proof -
  have "hm_get (by_pubkey (members manage_state)) [4, 1] =
      Some \<lparr>stored_hash = demo_hash, stored_tx_id = ''tx'', sessions = [''a'']\<rparr>"
    by (simp add: manage_state_keys)
  then show ?thesis
    using get_by_token_iff [of "members manage_state"] manage_state_inv
    by (simp add: store_inv_def manage_entry_def live_sessions_def)
qed

theorem manage_replay_refused_witness:
  "fst (manage_handler demo_manage_libs (\<lambda>m. m) (snd (manage_handler demo_manage_libs (\<lambda>m. m) manage_state demo_envelope))
     demo_envelope) = err CONFLICT ''nonce replay''"
proof -
  let ?st' = "snd (manage_handler demo_manage_libs (\<lambda>m. m) manage_state demo_envelope)"
  have same: "?st' = manage_state\<lparr>members := fold (store_exec (\<lambda>m. m)) [] (members ?st')\<rparr>"
    by (auto simp: manage_handler_def case_prod_unfold Let_def split: sum.splits)
  show ?thesis
    using manage_replay_refused [OF manage_state_inv iteration_id demo_signed _ same] by simp
qed

text \<open>
  C18: a signed revoke with a fresh nonce and a well-formed hash answers whether a member had that
  hash and, when the hash belongs to one key, afterwards no bearer resolves to it while all other
  bearers resolve as before. The hash is read as hex in either case and must be 32 bytes.
\<close>

theorem manage_revoke_effect:
  assumes it: "iteration_of iter" and wf: "store_wf (members st)"
    and signed: "orchestrator_signed libs (orch_manage_pubkey (trust st)) env a"
    and fresh: "nonce a \<notin> seen_nonces (members st)"
    and rev: "action a = ''revoke''" "action_member_hash a = Some hex" "hex_decode hex = Some h" "length h = 32"
    and unique: "\<And>pk pk' m m'. hm_get (by_pubkey (members st)) pk = Some m \<Longrightarrow>
      hm_get (by_pubkey (members st)) pk' = Some m' \<Longrightarrow> stored_hash m = h \<Longrightarrow> stored_hash m' = h \<Longrightarrow> pk = pk'"
  shows "fst (manage_handler libs iter st env) =
      ok_json (\<exists>pk m. hm_get (by_pubkey (members st)) pk = Some m \<and> stored_hash m = h) \<and>
    get_by_token t (members (snd (manage_handler libs iter st env))) =
      (case get_by_token t (members st) of None \<Rightarrow> None | Some e \<Rightarrow> if member_hash e = h then None else Some e)"
proof -
  let ?s1 = "snd (note_nonce (nonce a) (members st))"
  have wf1: "store_wf ?s1" using wf by (simp add: note_nonce_wf)
  have "revoke_target a = Some h" using rev by (simp add: revoke_target_def)
  then have run: "manage_handler libs iter st env =
      (ok_json (fst (revoke_by_member_hash iter h ?s1)), st\<lparr>members := snd (revoke_by_member_hash iter h ?s1)\<rparr>)"
    using fresh rev by (simp add: manage_signed [OF signed] manage_apply_def case_prod_unfold Let_def)
  have "get_by_token t (snd (revoke_by_member_hash iter h ?s1)) =
      (case get_by_token t ?s1 of None \<Rightarrow> None | Some e \<Rightarrow> if member_hash e = h then None else Some e)"
    by (rule revoke_complete [OF it wf1]) (use unique in simp)
  moreover have "get_by_token t ?s1 = get_by_token t (members st)" by simp
  ultimately show ?thesis using revoke_true_iff [OF it wf1, of h] by (simp add: run)
qed

theorem manage_revoke_effect_witness:
  "get_by_token ''a'' (members manage_state) = Some manage_entry \<and>
   fst (manage_handler demo_manage_libs (\<lambda>m. m) manage_state demo_envelope) = ok_json True \<and>
   get_by_token ''a'' (members (snd (manage_handler demo_manage_libs (\<lambda>m. m) manage_state demo_envelope))) = None"
proof -
  have wf: "store_wf (members manage_state)" using manage_state_inv by (simp add: store_inv_def)
  have fresh: "nonce demo_action \<notin> seen_nonces (members manage_state)"
    by (simp add: manage_state_def member_insert_frame default_inner_def)
  have act: "action demo_action = ''revoke''" "action_member_hash demo_action = Some (hex_encode demo_hash)"
    by (simp_all add: demo_action_def)
  have len: "length demo_hash = 32" by (simp add: demo_hash_def)
  have "\<exists>pk m. hm_get (by_pubkey (members manage_state)) pk = Some m \<and> stored_hash m = demo_hash"
    unfolding manage_state_keys by simp
  then show ?thesis
    using manage_revoke_effect [OF iteration_id wf demo_signed fresh act hex_decode_encode len, of "''a''"]
      manage_state_keys manage_state_entry
    by (auto simp: manage_entry_def)
qed

end
