(* ===== verification/Chat.thy ===== *)
theory Chat
  imports App_State
begin

text \<open>
  \<^verbatim>\<open>POST /v1/chat/completions\<close> (\<^verbatim>\<open>src/src/chat.rs\<close>): bearer check, one request to the model backend,
  and a relay task that copies the backend's frames to the client while the bearer is valid. The
  \<^verbatim>\<open>http\<close> and \<^verbatim>\<open>hyper\<close> crates and the environment variable are the record \<open>http_lib\<close>.

  The relay task runs concurrently with every other request. For each frame the model takes what the
  backend delivered, the store as it is when the task checks the bearer, and whether the channel
  to the client accepts the frame: \<open>relay_event\<close>.
\<close>

definition DEFAULT_UPSTREAM :: string where
  "DEFAULT_UPSTREAM = ''http://127.0.0.1:8000/v1/chat/completions''"

definition REVOKED_FRAME :: bytes where
  "REVOKED_FRAME = as_bytes (''data: {'' @ [CHR 0x22] @ ''error'' @ [CHR 0x22] @ '':{'' @ [CHR 0x22] @ ''message''
     @ [CHR 0x22] @ '':'' @ [CHR 0x22] @ ''session revoked'' @ [CHR 0x22] @ '','' @ [CHR 0x22] @ ''type'' @ [CHR 0x22]
     @ '':'' @ [CHR 0x22] @ ''revoked'' @ [CHR 0x22] @ ''}}'' @ [CHR 0x0a, CHR 0x0a])"

record upstream_request =
  req_method :: string
  req_uri :: string
  req_headers :: "(string \<times> string) list"
  req_body :: bytes

record http_lib =
  header_to_str :: "bytes \<Rightarrow> string option"
  request_build :: "upstream_request \<Rightarrow> upstream_request option"
  send_request :: "upstream_request \<Rightarrow> u16 option"
  is_success :: "u16 \<Rightarrow> bool"
  status_from_u16 :: "u16 \<Rightarrow> nat option"
  response_build :: bool
  IRON_VLLM_URL :: "string option"

definition upstream :: "http_lib \<Rightarrow> string" where
  "upstream lib = (case IRON_VLLM_URL lib of Some u \<Rightarrow> u | None \<Rightarrow> DEFAULT_UPSTREAM)"

definition strip_prefix :: "string \<Rightarrow> string \<Rightarrow> string option" where
  "strip_prefix p s = (if take (length p) s = p then Some (drop (length p) s) else None)"

text \<open>\<open>headers\<close> maps a header name to its first value, as \<^verbatim>\<open>HeaderMap::get\<close> does.\<close>

definition bearer :: "http_lib \<Rightarrow> (string \<Rightarrow> bytes option) \<Rightarrow> string option" where
  "bearer lib headers =
     (case headers ''authorization'' of None \<Rightarrow> None
      | Some v \<Rightarrow> (case header_to_str lib v of None \<Rightarrow> None
        | Some raw \<Rightarrow> strip_prefix ''Bearer '' raw))"

text \<open>The reply to the client, and what else the handler does: the request it sends, the relay it starts.\<close>

datatype chat_reply =
    Reply "unit response"
  | Internal_Error
  | Stream "(string \<times> string) list"

record chat_outcome =
  reply :: chat_reply
  forwarded :: "upstream_request option"
  relay_for :: "string option"

definition reject :: "nat \<Rightarrow> string \<Rightarrow> upstream_request option \<Rightarrow> chat_outcome" where
  "reject code msg fwd = \<lparr>reply = Reply (err code msg), forwarded = fwd, relay_for = None\<rparr>"

definition chat_request :: "http_lib \<Rightarrow> bytes \<Rightarrow> upstream_request" where
  "chat_request lib req_bytes =
     \<lparr>req_method = ''POST'', req_uri = upstream lib,
      req_headers = [(''content-type'', ''application/json''), (''accept'', ''text/event-stream'')],
      req_body = req_bytes\<rparr>"

definition chat_handler ::
  "http_lib \<Rightarrow> ('k, 'v) app_state \<Rightarrow> (string \<Rightarrow> bytes option) \<Rightarrow> bytes \<Rightarrow> chat_outcome" where
  "chat_handler lib st headers req_bytes =
     (case (case bearer lib headers of
              Some t \<Rightarrow> if contains_token t (members st) then Some t else None
            | None \<Rightarrow> None) of
        None \<Rightarrow> reject UNAUTHORIZED ''invalid bearer'' None
      | Some token \<Rightarrow>
        (case request_build lib (chat_request lib req_bytes) of
           None \<Rightarrow> reject BAD_GATEWAY ''bad upstream request'' None
         | Some request \<Rightarrow>
           (case send_request lib request of
              None \<Rightarrow> reject BAD_GATEWAY ''model backend unavailable'' (Some request)
            | Some code \<Rightarrow>
              if \<not> is_success lib code
              then reject (case status_from_u16 lib code of Some c \<Rightarrow> c | None \<Rightarrow> BAD_GATEWAY)
                     ''model backend rejected the request'' (Some request)
              else \<lparr>reply = (if response_build lib
                             then Stream [(''content-type'', ''text/event-stream''), (''cache-control'', ''no-cache'')]
                             else Internal_Error),
                    forwarded = Some request, relay_for = Some token\<rparr>)))"

subsection \<open>The relay task\<close>

datatype upstream_frame = Frame_Error | Not_Data | Data bytes

record relay_event =
  frame :: upstream_frame
  store_at_check :: inner
  client_listens :: bool

datatype relay_end = Upstream_Done | Upstream_Failed | Cut | Client_Gone

text \<open>The frames the task hands to the channel, and why it stops.\<close>

fun relay :: "string \<Rightarrow> relay_event list \<Rightarrow> bytes list \<times> relay_end" where
  "relay token [] = ([], Upstream_Done)"
| "relay token (ev # evs) =
     (case frame ev of
        Frame_Error \<Rightarrow> ([], Upstream_Failed)
      | Not_Data \<Rightarrow> relay token evs
      | Data d \<Rightarrow>
          if \<not> contains_token token (store_at_check ev)
          then (if client_listens ev then [REVOKED_FRAME] else [], Cut)
          else if \<not> client_listens ev then ([], Client_Gone)
          else (let (sent, why) = relay token evs in (d # sent, why)))"

fun data_of :: "relay_event \<Rightarrow> bytes option" where
  "data_of ev = (case frame ev of Data d \<Rightarrow> Some d | _ \<Rightarrow> None)"

definition data_frames :: "relay_event list \<Rightarrow> bytes list" where
  "data_frames evs = List.map_filter data_of evs"

definition bearer_ok :: "string \<Rightarrow> relay_event \<Rightarrow> bool" where
  "bearer_ok token ev \<longleftrightarrow> contains_token token (store_at_check ev)"

lemma data_frames_simps [simp]:
  "data_frames [] = []"
  "data_frames (ev # evs) = (case frame ev of Data d \<Rightarrow> d # data_frames evs | _ \<Rightarrow> data_frames evs)"
  "data_frames (xs @ ys) = data_frames xs @ data_frames ys"
  by (simp_all add: data_frames_def List.map_filter_def split: upstream_frame.splits)

text \<open>
  The relay passes a run \<open>served\<close> of events whose data frames it copies, each after a successful
  check; then it is at the end, at a failed frame, at a hung-up client or at a failed check.
\<close>

lemma relay_shape:
  "\<exists>served rest. evs = served @ rest \<and>
     (\<forall>ev \<in> set served. frame ev \<noteq> Frame_Error \<and> (data_of ev \<noteq> None \<longrightarrow> bearer_ok token ev)) \<and>
     fst (relay token evs) = data_frames served @
       (if snd (relay token evs) = Cut \<and> client_listens (hd rest) then [REVOKED_FRAME] else []) \<and>
     (case snd (relay token evs) of
        Upstream_Done \<Rightarrow> rest = []
      | Upstream_Failed \<Rightarrow> rest \<noteq> [] \<and> frame (hd rest) = Frame_Error
      | Cut \<Rightarrow> rest \<noteq> [] \<and> data_of (hd rest) \<noteq> None \<and> \<not> bearer_ok token (hd rest)
      | Client_Gone \<Rightarrow> rest \<noteq> [] \<and> bearer_ok token (hd rest) \<and> \<not> client_listens (hd rest))"
proof (induction evs)
  case (Cons ev evs)
  show ?case
  proof (cases "(\<exists>d. frame ev = Data d) \<and> \<not> (bearer_ok token ev \<and> client_listens ev) \<or> frame ev = Frame_Error")
    case True
    then show ?thesis by (intro exI [of _ "[]"] exI [of _ "ev # evs"]) (auto simp: bearer_ok_def)
  next
    case False
    from Cons.IH obtain served rest where IH: "evs = served @ rest"
     "\<forall>ev \<in> set served. frame ev \<noteq> Frame_Error \<and> (data_of ev \<noteq> None \<longrightarrow> bearer_ok token ev)"
     "fst (relay token evs) = data_frames served @
       (if snd (relay token evs) = Cut \<and> client_listens (hd rest) then [REVOKED_FRAME] else [])"
     "case snd (relay token evs) of
        Upstream_Done \<Rightarrow> rest = []
      | Upstream_Failed \<Rightarrow> rest \<noteq> [] \<and> frame (hd rest) = Frame_Error
      | Cut \<Rightarrow> rest \<noteq> [] \<and> data_of (hd rest) \<noteq> None \<and> \<not> bearer_ok token (hd rest)
      | Client_Gone \<Rightarrow> rest \<noteq> [] \<and> bearer_ok token (hd rest) \<and> \<not> client_listens (hd rest)"
      by blast
    show ?thesis
      by (rule exI [of _ "ev # served"], rule exI [of _ rest])
        (use False IH in \<open>cases "frame ev"; auto simp: bearer_ok_def case_prod_unfold Let_def\<close>)
  qed
qed simp

lemma relay_after_failed_check:
  assumes "evs = pre @ ev # post" "data_of ev \<noteq> None" "\<not> bearer_ok token ev"
  shows "\<exists>n. fst (relay token evs) \<in> {take n (data_frames pre), take n (data_frames pre) @ [REVOKED_FRAME]}"
proof -
  obtain served rest where s: "evs = served @ rest" "\<forall>ev \<in> set served. data_of ev \<noteq> None \<longrightarrow> bearer_ok token ev"
    "fst (relay token evs) \<in> {data_frames served, data_frames served @ [REVOKED_FRAME]}"
  proof -
    from relay_shape [of evs token] obtain served rest where r: "evs = served @ rest"
      "\<forall>ev \<in> set served. frame ev \<noteq> Frame_Error \<and> (data_of ev \<noteq> None \<longrightarrow> bearer_ok token ev)"
      "fst (relay token evs) = data_frames served @
        (if snd (relay token evs) = Cut \<and> client_listens (hd rest) then [REVOKED_FRAME] else [])" by blast
    show thesis by (rule that [OF r(1)]) (use r(2,3) in \<open>simp_all split: if_splits\<close>)
  qed
  have "ev \<notin> set served" using s(2) assms(2,3) by blast
  then have "length served \<le> length pre"
    using nth_append [of served rest "length pre"] nth_mem [of "length pre" served] s(1) assms(1)
    by (metis linorder_not_le nth_append_length)
  moreover have "take (length pre) (served @ rest) = pre" using s(1) assms(1) by (metis append_eq_conv_conj)
  ultimately have "pre = served @ take (length pre - length served) rest" by simp
  then obtain more where "pre = served @ more" by blast
  then have "data_frames served = take (length (data_frames served)) (data_frames pre)" by simp
  with s(3) show ?thesis by (metis (no_types, lifting))
qed

lemma relay_all_served:
  "list_all (\<lambda>ev. frame ev \<noteq> Frame_Error \<and> bearer_ok token ev \<and> client_listens ev) evs \<Longrightarrow>
   relay token evs = (data_frames evs, Upstream_Done)"
  by (induction evs) (auto simp: bearer_ok_def split: upstream_frame.splits)

subsection \<open>What the chat endpoint promises\<close>

text \<open>
  Nothing reaches the model backend without a live bearer. Either the request carries a bearer
  that is in the store, and then what is forwarded is the client's body verbatim and a relay is started
  for that bearer alone; or the reply is 401, nothing is forwarded and no relay starts.
\<close>

theorem chat_requires_live_bearer:
  "(\<exists>t. bearer lib headers = Some t \<and> contains_token t (members st) \<and>
      forwarded (chat_handler lib st headers b) \<in> {None, request_build lib (chat_request lib b)} \<and>
      relay_for (chat_handler lib st headers b) \<in> {None, Some t}) \<or>
   chat_handler lib st headers b = reject UNAUTHORIZED ''invalid bearer'' None"
  by (auto simp: chat_handler_def reject_def split: option.splits)

text \<open>
  C29: the relay copies frames byte for byte and in order: what the client is sent is the data of an
  initial run of the backend's frames, each copied after a check that found the bearer valid. It
  stops only at the end of the backend's stream, at a backend error, when the client is gone, or
  at a check that fails, and only then the revocation frame follows, once.
\<close>

theorem relay_copies_while_valid:
  "\<exists>served rest. evs = served @ rest \<and>
     (\<forall>ev \<in> set served. frame ev \<noteq> Frame_Error \<and> (data_of ev \<noteq> None \<longrightarrow> bearer_ok token ev)) \<and>
     fst (relay token evs) = data_frames served @
       (if snd (relay token evs) = Cut \<and> client_listens (hd rest) then [REVOKED_FRAME] else []) \<and>
     (case snd (relay token evs) of
        Upstream_Done \<Rightarrow> rest = []
      | Upstream_Failed \<Rightarrow> rest \<noteq> [] \<and> frame (hd rest) = Frame_Error
      | Cut \<Rightarrow> rest \<noteq> [] \<and> data_of (hd rest) \<noteq> None \<and> \<not> bearer_ok token (hd rest)
      | Client_Gone \<Rightarrow> rest \<noteq> [] \<and> bearer_ok token (hd rest) \<and> \<not> client_listens (hd rest))"
  by (rule relay_shape)

text \<open>A stream of two frames, the bearer revoked between them.\<close>

definition demo_stream :: "relay_event list" where
  "demo_stream = [\<lparr>frame = Data [1], store_at_check = full_store, client_listens = True\<rparr>,
                  \<lparr>frame = Data [2], store_at_check = default_inner, client_listens = True\<rparr>]"

lemma demo_stream_run: "relay ''a'' demo_stream = ([[1], REVOKED_FRAME], Cut)"
  using full_store_facts(3) by (simp add: demo_stream_def default_inner_empty)

theorem relay_copies_while_valid_witness:
  "\<exists>served rest. demo_stream = served @ rest \<and> [[1], REVOKED_FRAME] = data_frames served @
     (if client_listens (hd rest) then [REVOKED_FRAME] else []) \<and> \<not> bearer_ok ''a'' (hd rest)"
proof -
  obtain served rest where "demo_stream = served @ rest"
    "fst (relay ''a'' demo_stream) = data_frames served @
       (if snd (relay ''a'' demo_stream) = Cut \<and> client_listens (hd rest) then [REVOKED_FRAME] else [])"
    "case snd (relay ''a'' demo_stream) of
        Upstream_Done \<Rightarrow> rest = []
      | Upstream_Failed \<Rightarrow> rest \<noteq> [] \<and> frame (hd rest) = Frame_Error
      | Cut \<Rightarrow> rest \<noteq> [] \<and> data_of (hd rest) \<noteq> None \<and> \<not> bearer_ok ''a'' (hd rest)
      | Client_Gone \<Rightarrow> rest \<noteq> [] \<and> bearer_ok ''a'' (hd rest) \<and> \<not> client_listens (hd rest)"
    using relay_copies_while_valid [of demo_stream "''a''"] by blast
  then show ?thesis unfolding demo_stream_run by (intro exI [of _ served] exI [of _ rest]) simp
qed

text \<open>
  A revocation lands between frames. From the first data frame whose check finds the bearer gone,
  no backend data is sent: the client has received at most the data before that frame, followed
  by at most the one revocation frame, whatever the backend still delivers.
\<close>

theorem relay_cut_is_final:
  assumes "evs = pre @ ev # post" "frame ev = Data d" "\<not> contains_token token (store_at_check ev)"
  shows "\<exists>n. fst (relay token evs) \<in> {take n (data_frames pre), take n (data_frames pre) @ [REVOKED_FRAME]}"
  using relay_after_failed_check [OF assms(1), of token] assms(2,3) by (simp add: bearer_ok_def)

theorem relay_cut_is_final_witness:
  "\<exists>n. fst (relay ''a'' demo_stream) \<in> {take n [[1]], take n [[1]] @ [REVOKED_FRAME]}"
proof -
  let ?e1 = "\<lparr>frame = Data [1], store_at_check = full_store, client_listens = True\<rparr>"
  let ?e2 = "\<lparr>frame = Data [2], store_at_check = default_inner, client_listens = True\<rparr>"
  have split: "demo_stream = [?e1] @ ?e2 # []" by (simp add: demo_stream_def)
  show ?thesis
    using relay_cut_is_final [OF split, of "[2]" "''a''"] by (simp add: default_inner_empty)
qed

text \<open>
  An undisturbed stream is delivered completely: when the backend reports no error, every check
  finds the bearer and the client keeps listening, exactly the backend's data frames are sent.
\<close>

theorem relay_delivers_everything:
  assumes "list_all (\<lambda>ev. frame ev \<noteq> Frame_Error \<and> contains_token token (store_at_check ev) \<and> client_listens ev) evs"
  shows "relay token evs = (data_frames evs, Upstream_Done)"
  using assms relay_all_served by (simp add: bearer_ok_def)

theorem relay_delivers_everything_witness:
  "relay ''a'' (take 1 demo_stream) = ([[1]], Upstream_Done)"
  using relay_delivers_everything [of "''a''" "take 1 demo_stream"] full_store_facts(3) by (simp add: demo_stream_def)

end
