(* ===== verification/Pem_Scan.thy ===== *)
theory Pem_Scan
  imports Base64_Codec
begin

text \<open>
  \<^verbatim>\<open>pck_chain_from_quote\<close> of \<^verbatim>\<open>src/src/attestation.rs\<close>: lifting the PEM certificates out of a binary
  quote. The quote is first read with \<^verbatim>\<open>String::from_utf8_lossy\<close>, modelled here byte by byte: a
  maximal ill-formed prefix becomes U+FFFD. \<^verbatim>\<open>str::find\<close> is the first occurrence.

  The scan inverts PEM armouring: certificates wrapped in PEM behind any binary prefix come out again, in order.
\<close>

subsection \<open>Lossy UTF-8\<close>

definition cont :: "u8 \<Rightarrow> bool" where
  "cont b \<longleftrightarrow> 0x80 \<le> b \<and> b \<le> 0xbf"

definition between :: "u8 \<Rightarrow> u8 \<Rightarrow> u8 \<Rightarrow> bool" where
  "between lo hi b \<longleftrightarrow> lo \<le> b \<and> b \<le> hi"

text \<open>A byte past the end reads as \<open>0\<close>, which is no continuation byte.\<close>

definition byte_at :: "bytes \<Rightarrow> nat \<Rightarrow> u8" where
  "byte_at bs i = (if i < length bs then bs ! i else 0)"

text \<open>
  The next chunk of a non-empty input that starts with \<open>b\<close>: whether it is well-formed, and its length. The
  second byte's range depends on the first (no overlong forms, no surrogates, nothing above U+10FFFF).
\<close>

definition second_ok :: "u8 \<Rightarrow> u8 \<Rightarrow> bool" where
  "second_ok b n =
     (if b = 0xe0 then between 0xa0 0xbf n
      else if b = 0xed then between 0x80 0x9f n
      else if b = 0xf0 then between 0x90 0xbf n
      else if b = 0xf4 then between 0x80 0x8f n
      else cont n)"

definition utf8_chunk :: "u8 \<Rightarrow> bytes \<Rightarrow> bool \<times> nat" where
  "utf8_chunk b bs =
     (if b < 0x80 then (True, 1)
      else if between 0xc2 0xdf b then (if cont (byte_at bs 0) then (True, 2) else (False, 1))
      else if between 0xe0 0xef b then
        (if \<not> second_ok b (byte_at bs 0) then (False, 1)
         else if \<not> cont (byte_at bs 1) then (False, 2)
         else (True, 3))
      else if between 0xf0 0xf4 b then
        (if \<not> second_ok b (byte_at bs 0) then (False, 1)
         else if \<not> cont (byte_at bs 1) then (False, 2)
         else if \<not> cont (byte_at bs 2) then (False, 3)
         else (True, 4))
      else (False, 1))"

definition REPLACEMENT :: bytes where "REPLACEMENT = [0xef, 0xbf, 0xbd]"

lemma utf8_chunk_pos: "0 < snd (utf8_chunk b bs)"
  by (simp add: utf8_chunk_def)

function from_utf8_lossy :: "bytes \<Rightarrow> bytes" where
  "from_utf8_lossy [] = []"
| "from_utf8_lossy (b # bs) =
     (let (ok, n) = utf8_chunk b bs
      in (if ok then take n (b # bs) else REPLACEMENT) @ from_utf8_lossy (drop (n - 1) bs))"
  by pat_completeness auto
termination
  by (relation "measure length") (auto simp: le_imp_less_Suc)

subsection \<open>The scan\<close>

definition PEM_BEGIN :: bytes where "PEM_BEGIN = as_bytes ''-----BEGIN CERTIFICATE-----''"
definition PEM_END :: bytes where "PEM_END = as_bytes ''-----END CERTIFICATE-----''"

text \<open>\<^verbatim>\<open>str::find\<close>, on bytes: the index of the first occurrence.\<close>

fun find_sub :: "'a list \<Rightarrow> 'a list \<Rightarrow> nat option" where
  "find_sub pat [] = (if pat = [] then Some 0 else None)"
| "find_sub pat (x # xs) =
     (if take (length pat) (x # xs) = pat then Some 0 else map_option Suc (find_sub pat xs))"

text \<open>The string handed to \<^verbatim>\<open>b64_decode_any\<close> is a slice of the text: the same bytes as characters.\<close>

definition of_bytes :: "bytes \<Rightarrow> string" where
  "of_bytes bs = map (\<lambda>b. char_of (unat b)) bs"

lemma find_sub_bound: "find_sub pat xs = Some i \<Longrightarrow> i + length pat \<le> length xs"
proof (induction xs arbitrary: i)
  case (Cons x xs)
  have "length pat \<le> length (x # xs)" if "take (length pat) (x # xs) = pat"
    using that by (metis length_take min.cobounded1)
  with Cons show ?case by (auto split: if_splits)
qed (auto split: if_splits)

function pem_loop :: "bytes \<Rightarrow> bytes list" where
  "pem_loop rest =
     (case find_sub PEM_BEGIN rest of
        None \<Rightarrow> []
      | Some start \<Rightarrow>
          (let after = drop (start + length PEM_BEGIN) rest in
           case find_sub PEM_END after of
             None \<Rightarrow> []
           | Some fin \<Rightarrow>
               (case b64_decode_any (of_bytes (take fin after)) of
                  Some der \<Rightarrow> (if der \<noteq> [] then [der] else [])
                | None \<Rightarrow> []) @ pem_loop (drop (fin + length PEM_END) after)))"
  by pat_completeness auto
termination
proof (relation "measure length", simp)
  fix rest start after fin
  assume "find_sub PEM_BEGIN rest = Some start" and a: "after = drop (start + length PEM_BEGIN) rest"
  then have "length after < length rest"
    using find_sub_bound [of PEM_BEGIN rest start] by (simp add: PEM_BEGIN_def)
  then show "(drop (fin + length PEM_END) after, rest) \<in> measure length" by simp
qed

declare pem_loop.simps [simp del]

definition pck_chain_from_quote :: "bytes \<Rightarrow> bytes list" where
  "pck_chain_from_quote quote = pem_loop (from_utf8_lossy quote)"

subsection \<open>Lossy reading keeps ASCII\<close>

lemma not_cont_ascii: "b < 0x80 \<Longrightarrow> \<not> cont b" "b < 0x80 \<Longrightarrow> \<not> second_ok c b"
  by (auto simp: cont_def second_ok_def between_def word_less_nat_alt word_le_nat_alt)

lemma not_cont_0 [simp]: "\<not> cont 0" "\<not> second_ok c 0"
  by (auto intro!: not_cont_ascii)

text \<open>A chunk never reaches past an ASCII byte, and what follows that byte does not matter to it.\<close>

lemma utf8_chunk_ascii_end:
  assumes "a < 0x80"
  shows "utf8_chunk b (xs @ a # ys) = utf8_chunk b xs" "snd (utf8_chunk b xs) \<le> Suc (length xs)"
proof -
  have *: "xs = [] \<or> (\<exists>x. xs = [x]) \<or> (\<exists>x y. xs = [x, y]) \<or> (\<exists>x y z zs. xs = x # y # z # zs)"
    by (metis list.exhaust)
  from * show "utf8_chunk b (xs @ a # ys) = utf8_chunk b xs"
    by (elim disjE exE) (simp_all add: utf8_chunk_def byte_at_def not_cont_ascii [OF assms])
  from * show "snd (utf8_chunk b xs) \<le> Suc (length xs)"
    by (elim disjE exE) (simp_all add: utf8_chunk_def byte_at_def)
qed

lemma lossy_ascii_cut:
  assumes "a < 0x80"
  shows "from_utf8_lossy (xs @ a # ys) = from_utf8_lossy xs @ a # from_utf8_lossy ys"
proof (induction xs rule: from_utf8_lossy.induct)
  case 1
  then show ?case using assms by (simp add: utf8_chunk_def)
next
  case (2 b bs)
  obtain ok n where c: "utf8_chunk b bs = (ok, n)" by fastforce
  have n: "0 < n" "n \<le> Suc (length bs)"
    using utf8_chunk_ascii_end(2) [OF assms, of b bs] utf8_chunk_pos [of b bs] c by simp_all
  then have "drop (n - 1) (bs @ a # ys) = drop (n - 1) bs @ a # ys" "take n (b # bs @ a # ys) = take n (b # bs)"
    by (auto simp: take_Cons split: nat.splits)
  then show ?case using 2 [OF c [symmetric] refl] c by (simp add: utf8_chunk_ascii_end(1) [OF assms])
qed

lemma lossy_ascii: "list_all (\<lambda>b. b < 0x80) bs \<Longrightarrow> from_utf8_lossy bs = bs"
  by (induction bs) (simp_all add: utf8_chunk_def)

lemma lossy_append_ascii: "list_all (\<lambda>b. b < 0x80) ys \<Longrightarrow> from_utf8_lossy (xs @ ys) = from_utf8_lossy xs @ ys"
  by (cases ys) (simp_all add: lossy_ascii_cut lossy_ascii)

subsection \<open>Finding the markers\<close>

lemma find_sub_stable: "find_sub pat (xs @ pat) = Some (length xs) \<Longrightarrow> find_sub pat (xs @ pat @ ys) = Some (length xs)"
proof (induction xs)
  case Nil
  then show ?case by (cases pat; cases ys) auto
next
  case (Cons x xs)
  have "take (length pat) (x # xs @ pat @ ys) = take (length pat) (x # xs @ pat)"
    using take_append [of "length pat" "x # xs @ pat" ys] by simp
  with Cons show ?case by (auto split: if_splits)
qed

lemma find_sub_fresh:
  assumes "p \<notin> set xs"
  shows "find_sub (p # ps) (xs @ p # ps) = Some (length xs)"
  using assms by (induction xs) auto

definition plain :: "string \<Rightarrow> bool" where
  "plain s \<longleftrightarrow> list_all (\<lambda>c. of_char c < (0x80 :: u8) \<and> c \<noteq> CHR ''-'') s"

lemma of_bytes_as_bytes [simp]: "of_bytes (as_bytes s) = s"
proof -
  have "char_of (unat (of_char c :: u8)) = c" for c
  proof -
    have "(of_char c :: u8) = of_nat (of_char c)" by (simp add: of_nat_of_char)
    then have "unat (of_char c :: u8) = of_char c"
      using nat_of_char_less_256 [of c] by (simp add: unsigned_of_nat take_bit_nat_eq_self)
    then show ?thesis by simp
  qed
  then show ?thesis by (simp add: of_bytes_def as_bytes_def map_idI)
qed

lemma plain_no_dash: "plain s \<Longrightarrow> 0x2d \<notin> set (as_bytes s)"
proof -
  assume "plain s"
  then have "CHR ''-'' \<notin> set s" by (auto simp: plain_def list_all_iff)
  then have "of_char CHR ''-'' \<notin> set (as_bytes s)" by (simp only: as_bytes_def set_map image_iff of_char_byte_inject) simp
  moreover have "(of_char CHR ''-'' :: u8) = 0x2d" by simp
  ultimately show ?thesis by metis
qed

lemma pem_markers: "\<exists>ps. PEM_BEGIN = 0x2d # ps" "\<exists>ps. PEM_END = 0x2d # ps"
  by (simp_all add: PEM_BEGIN_def PEM_END_def)

lemma pem_loop_block:
  assumes "find_sub PEM_BEGIN (xs @ PEM_BEGIN) = Some (length xs)" "plain t"
    "b64_decode_any t = Some der" "der \<noteq> []"
  shows "pem_loop (xs @ PEM_BEGIN @ as_bytes t @ PEM_END @ zs) = der # pem_loop zs"
proof -
  obtain ps where "PEM_END = 0x2d # ps" using pem_markers by blast
  then have "find_sub PEM_END (as_bytes t @ PEM_END) = Some (length t)"
    using find_sub_fresh [OF plain_no_dash [OF assms(2)], of ps] by simp
  then have e: "find_sub PEM_END (as_bytes t @ PEM_END @ zs) = Some (length t)"
    using find_sub_stable [of PEM_END "as_bytes t"] by simp
  have b: "find_sub PEM_BEGIN (xs @ PEM_BEGIN @ as_bytes t @ PEM_END @ zs) = Some (length xs)"
    using find_sub_stable [OF assms(1)] .
  have "drop (length xs + length PEM_BEGIN) (xs @ PEM_BEGIN @ as_bytes t @ PEM_END @ zs) = as_bytes t @ PEM_END @ zs"
    by simp
  then show ?thesis
    by (subst pem_loop.simps) (simp add: b e assms(3,4) Let_def)
qed

lemma find_sub_append: "find_sub pat xs = Some i \<Longrightarrow> find_sub pat (xs @ ys) = Some i"
proof (induction xs arbitrary: i)
  case Nil
  then show ?case by (cases ys) (auto split: if_splits)
next
  case (Cons x xs)
  have "length pat \<le> length (x # xs)" using find_sub_bound [OF Cons.prems] by simp
  then have "take (length pat) (x # xs @ ys) = take (length pat) (x # xs)"
    using take_append [of "length pat" "x # xs" ys] by simp
  with Cons show ?case by (auto split: if_splits)
qed

lemma pem_loop_none:
  assumes "find_sub PEM_BEGIN (xs @ PEM_BEGIN) = Some (length xs)"
  shows "pem_loop xs = []"
proof -
  have "find_sub PEM_BEGIN xs = None"
  proof (cases "find_sub PEM_BEGIN xs")
    case (Some i)
    then have "i = length xs" "i + length PEM_BEGIN \<le> length xs"
      using find_sub_append [OF Some, of PEM_BEGIN] assms find_sub_bound [OF Some] by simp_all
    then show ?thesis by (simp add: PEM_BEGIN_def)
  qed simp
  then show ?thesis by (simp add: pem_loop.simps)
qed

text \<open>PEM: each certificate's base64 text between the markers, on lines of its own.\<close>

definition pem_text :: "string list \<Rightarrow> bytes" where
  "pem_text ts = concat (map (\<lambda>t. PEM_BEGIN @ as_bytes t @ PEM_END @ [0x0a]) ts)"

lemma pem_text_simps [simp]:
  "pem_text [] = []" "pem_text (t # ts) = PEM_BEGIN @ as_bytes t @ PEM_END @ [0x0a] @ pem_text ts"
  by (simp_all add: pem_text_def)

lemma pem_text_ascii: "list_all plain ts \<Longrightarrow> list_all (\<lambda>b. b < 0x80) (pem_text ts)"
proof (induction ts)
  case (Cons t ts)
  moreover have "list_all (\<lambda>b. b < 0x80) PEM_BEGIN" "list_all (\<lambda>b. b < 0x80) PEM_END" by code_simp+
  moreover have "list_all (\<lambda>b. b < 0x80) (as_bytes t)"
    using Cons.prems by (simp add: plain_def as_bytes_def list_all_iff)
  ultimately show ?case by simp
qed simp

lemma pem_loop_text:
  assumes "find_sub PEM_BEGIN (xs @ PEM_BEGIN) = Some (length xs)"
    "list_all2 (\<lambda>t der. plain t \<and> b64_decode_any t = Some der \<and> der \<noteq> []) ts ders"
  shows "pem_loop (xs @ pem_text ts) = ders"
  using assms(2,1)
proof (induction ts ders arbitrary: xs rule: list_all2_induct)
  case Nil
  then show ?case by (simp add: pem_loop_none)
next
  case (Cons t ts der ders)
  obtain ps where ps: "PEM_BEGIN = 0x2d # ps" using pem_markers by blast
  have nl: "find_sub PEM_BEGIN ([0x0a] @ PEM_BEGIN) = Some (length [0x0a :: u8])"
    unfolding ps by (rule find_sub_fresh) simp
  show ?case
    using pem_loop_block [OF Cons.prems, of t der "[0x0a] @ pem_text ts"] Cons.hyps(1) Cons.IH [OF nl] by simp
qed

text \<open>
  C32: the certificate chain comes out of the quote as it went in: for any binary prefix in whose
  lossy text the first certificate's marker is the first marker, and any list of certificates in PEM
  (ASCII base64 text, line breaks allowed, non-empty contents), the scan returns exactly the certificates, leaf first.
\<close>

theorem pck_chain_roundtrip:
  assumes "find_sub PEM_BEGIN (from_utf8_lossy pre @ PEM_BEGIN) = Some (length (from_utf8_lossy pre))"
    "list_all2 (\<lambda>t der. plain t \<and> b64_decode_any t = Some der \<and> der \<noteq> []) ts ders"
  shows "pck_chain_from_quote (pre @ pem_text ts) = ders"
proof -
  have "list_all plain ts"
    using assms(2) by (induction rule: list_all2_induct) auto
  then show ?thesis
    using pem_loop_text [OF assms] lossy_append_ascii [OF pem_text_ascii]
    by (simp add: pck_chain_from_quote_def)
qed

theorem pck_chain_roundtrip_witness:
  "pck_chain_from_quote ([0x00, 0xe2, 0x41, 0x2d, 0xff] @ pem_text [[CHR 0x0a] @ ''QQ=='' @ [CHR 0x0a], ''Qg'']) = [[0x41], [0x42]]"
proof (rule pck_chain_roundtrip)
  show "find_sub PEM_BEGIN (from_utf8_lossy [0x00, 0xe2, 0x41, 0x2d, 0xff] @ PEM_BEGIN) =
      Some (length (from_utf8_lossy [0x00, 0xe2, 0x41, 0x2d, 0xff]))"
    by code_simp
  have "b64_decode_any ([CHR 0x0a] @ ''QQ=='' @ [CHR 0x0a]) = Some [0x41]" "b64_decode_any ''Qg'' = Some [0x42]"
    "plain ([CHR 0x0a] @ ''QQ=='' @ [CHR 0x0a])" "plain ''Qg''"
    by code_simp+
  then show "list_all2 (\<lambda>t der. plain t \<and> b64_decode_any t = Some der \<and> der \<noteq> [])
      [[CHR 0x0a] @ ''QQ=='' @ [CHR 0x0a], ''Qg''] [[0x41], [0x42]]"
    by simp
qed

end
