(* ===== verification/Attestation.thy ===== *)
theory Attestation
  imports App_State Pem_Scan
begin

text \<open>
  \<^verbatim>\<open>GET /attestation\<close> (\<^verbatim>\<open>src/src/attestation.rs\<close>): the per-member rate limit, the binding of the
  client's nonce and the boot key into the TDX quote and the GPU challenges, and the envelope.
  The kernel's configfs-tsm files are operations on a state \<open>'f\<close> (record \<open>fs_lib\<close>); the GPU helper
  process and its JSON are \<open>gpu_lib\<close>; \<open>sha256\<close> is a parameter. The error values of the blocking part are
  dropped by the handler, so they are \<open>None\<close> here.
\<close>

definition TSM_REPORT_ROOT :: string where "TSM_REPORT_ROOT = ''/sys/kernel/config/tsm/report''"

definition GPU_REPORT_CMD :: string where "GPU_REPORT_CMD = ''/run/current-system/sw/bin/iron-gpu-report''"

definition EXPECTED_GPU_COUNT :: nat where "EXPECTED_GPU_COUNT = 8"

record 'f fs_lib =
  create_dir :: "string \<Rightarrow> 'f \<Rightarrow> bool \<times> 'f"
  write_file :: "string \<Rightarrow> bytes \<Rightarrow> 'f \<Rightarrow> bool \<times> 'f"
  read_file :: "string \<Rightarrow> 'f \<Rightarrow> bytes option \<times> 'f"
  remove_dir :: "string \<Rightarrow> 'f \<Rightarrow> bool \<times> 'f"

record gpu =
  gpu_report :: string
  gpu_cert_chain :: "string list"

record gpu_lib =
  IRON_GPU_REPORT_CMD :: "string option"
  command_output :: "string \<Rightarrow> string list \<Rightarrow> (bool \<times> bytes) option"
  helper_from_slice :: "bytes \<Rightarrow> gpu list option"

subsection \<open>The TDX quote\<close>

text \<open>\<^verbatim>\<open>{}\<close> formatting of an unsigned integer.\<close>

fun decimal :: "nat \<Rightarrow> string" where
  "decimal n = (if n < 10 then [char_of (48 + n)] else decimal (n div 10) @ [char_of (48 + n mod 10)])"

declare decimal.simps [simp del]

text \<open>\<^verbatim>\<open>PathBuf::join\<close> of a relative component.\<close>

definition path_join :: "string \<Rightarrow> string \<Rightarrow> string" where
  "path_join dir name = dir @ ''/'' @ name"

definition report_dir :: "u32 \<Rightarrow> u64 \<Rightarrow> string" where
  "report_dir pid seq = path_join TSM_REPORT_ROOT (''iron-'' @ decimal (unat pid) @ ''-'' @ decimal (unat seq))"

text \<open>\<open>seq\<close> is the static counter \<^verbatim>\<open>SEQ\<close>; \<^verbatim>\<open>fetch_add\<close> wraps.\<close>

definition tdx_quote :: "'f fs_lib \<Rightarrow> u32 \<Rightarrow> bytes \<Rightarrow> u64 \<Rightarrow> 'f \<Rightarrow> bytes option \<times> u64 \<times> 'f" where
  "tdx_quote fs pid report_data seq f0 =
     (let dir = report_dir pid seq; seq' = seq + 1;
          (made, f1) = create_dir fs dir f0
      in if \<not> made then (None, seq', f1)
         else (let (result, f3) =
                 (let (written, f2) = write_file fs (path_join dir ''inblob'') report_data f1
                  in if \<not> written then (None, f2)
                     else (let (r, f3) = read_file fs (path_join dir ''outblob'') f2
                           in (case r of None \<Rightarrow> (None, f3)
                               | Some quote \<Rightarrow> if quote = [] then (None, f3) else (Some quote, f3))));
                 (_, f4) = remove_dir fs dir f3
               in (result, seq', f4)))"

subsection \<open>The GPU reports\<close>

definition derive_gpu_nonce :: "(bytes \<Rightarrow> bytes) \<Rightarrow> bytes \<Rightarrow> bytes \<Rightarrow> u8 \<Rightarrow> bytes" where
  "derive_gpu_nonce sha nonce spki index = sha (nonce @ spki @ [index])"

definition decode_gpu :: "gpu \<Rightarrow> (bytes \<times> bytes list) option" where
  "decode_gpu g =
     (case b64_decode_any (gpu_report g) of None \<Rightarrow> None
      | Some report \<Rightarrow> (case collect_opt b64_decode_any (gpu_cert_chain g) of None \<Rightarrow> None
        | Some chain \<Rightarrow> if report = [] \<or> chain = [] then None else Some (report, chain)))"

definition gpu_args :: "bytes list \<Rightarrow> string list" where
  "gpu_args nonces = concat (map (\<lambda>nonce. [''--nonce-hex'', hex_encode nonce]) nonces)"

definition gpu_reports_all :: "gpu_lib \<Rightarrow> bytes list \<Rightarrow> (bytes \<times> bytes list) list option" where
  "gpu_reports_all lib nonces =
     (let cmd = (case IRON_GPU_REPORT_CMD lib of Some c \<Rightarrow> c | None \<Rightarrow> GPU_REPORT_CMD) in
      case command_output lib cmd (gpu_args nonces) of None \<Rightarrow> None
      | Some (success, stdout) \<Rightarrow>
          if \<not> success then None
          else (case helper_from_slice lib stdout of None \<Rightarrow> None
            | Some gpus \<Rightarrow> if length gpus \<noteq> length nonces then None else collect_opt decode_gpu gpus))"

subsection \<open>The handler\<close>

record envelope =
  version :: nat
  cpu_vendor :: string
  cpu_report :: string
  cpu_chain :: "string list"
  gpu_reports :: "string list"
  gpu_chains :: "string list list"

record 'f attest_libs =
  attest_fs :: "'f fs_lib"
  attest_gpu :: gpu_lib
  attest_sha256 :: "bytes \<Rightarrow> bytes"
  process_id :: u32

text \<open>What the process keeps outside the store: the counter and the file system.\<close>

record 'f attest_env =
  SEQ :: u64
  files :: 'f

definition build_envelope :: "bytes \<Rightarrow> bytes list \<Rightarrow> (bytes \<times> bytes list) list \<Rightarrow> envelope" where
  "build_envelope quote chain gpus =
     \<lparr>version = 2, cpu_vendor = ''intel_tdx'', cpu_report = b64_encode quote, cpu_chain = map b64_encode chain,
      gpu_reports = map (\<lambda>(r, _). b64_encode r) gpus, gpu_chains = map (\<lambda>(_, c). map b64_encode c) gpus\<rparr>"

definition gpu_nonces :: "(bytes \<Rightarrow> bytes) \<Rightarrow> bytes \<Rightarrow> bytes \<Rightarrow> bytes list" where
  "gpu_nonces sha nonce spki = map (\<lambda>i. derive_gpu_nonce sha nonce spki (word_of_nat i)) [0..<EXPECTED_GPU_COUNT]"

text \<open>The part after the rate limit.\<close>

definition attest_work ::
  "'f attest_libs \<Rightarrow> bytes \<Rightarrow> string option \<Rightarrow> 'f attest_env \<Rightarrow> envelope response \<times> 'f attest_env" where
  "attest_work libs spki q_nonce env =
     (case q_nonce of None \<Rightarrow> (err BAD_REQUEST ''missing nonce'', env)
      | Some nonce_hex \<Rightarrow>
        (case (case hex_decode nonce_hex of Some b \<Rightarrow> if length b = 32 then Some b else None | None \<Rightarrow> None) of
           None \<Rightarrow> (err BAD_REQUEST ''nonce must be 32 bytes hex'', env)
         | Some nonce \<Rightarrow>
           (let report_data = nonce @ spki;
                nonces = gpu_nonces (attest_sha256 libs) nonce spki;
                (q, seq', f') = tdx_quote (attest_fs libs) (process_id libs) report_data (SEQ env) (files env);
                env' = \<lparr>SEQ = seq', files = f'\<rparr>
            in (case q of None \<Rightarrow> (err SERVICE_UNAVAILABLE ''attestation unavailable'', env')
                | Some quote \<Rightarrow>
                  (case gpu_reports_all (attest_gpu libs) nonces of
                     None \<Rightarrow> (err SERVICE_UNAVAILABLE ''attestation unavailable'', env')
                   | Some gpus \<Rightarrow> (ok_json (build_envelope quote (pck_chain_from_quote quote) gpus), env'))))))"

definition attestation_handler ::
  "'f attest_libs \<Rightarrow> instant \<Rightarrow> ('k, 'v) app_state \<Rightarrow> 'f attest_env \<Rightarrow> pubkey option \<Rightarrow> string option \<Rightarrow>
   envelope response \<times> ('k, 'v) app_state \<times> 'f attest_env" where
  "attestation_handler libs now st env client q_nonce =
     (case client of
        Some pk \<Rightarrow>
          (let (ok, s') = allow_attestation now pk (members st); st' = st\<lparr>members := s'\<rparr> in
           if \<not> ok then (err TOO_MANY_REQUESTS ''attestation rate limit'', st', env)
           else (let (r, env') = attest_work libs (spki_sha256 (boot st)) q_nonce env in (r, st', env')))
      | None \<Rightarrow>
          (let (r, env') = attest_work libs (spki_sha256 (boot st)) q_nonce env in (r, st, env')))"

subsection \<open>Report entries\<close>

definition digit_value :: "string \<Rightarrow> nat" where
  "digit_value = foldl (\<lambda>n c. 10 * n + (of_char c - 48)) 0"

lemma of_char_digit: "d < 10 \<Longrightarrow> of_char (char_of (48 + d) :: char) = (48 + d :: nat)"
  by (simp add: of_char_of)

lemma digit_value_decimal: "digit_value (decimal n) = n"
proof (induction n rule: decimal.induct)
  case (1 n)
  show ?case
  proof (cases "n < 10")
    case True
    then show ?thesis by (subst decimal.simps) (simp add: digit_value_def of_char_digit)
  next
    case False
    then have "digit_value (decimal n) = 10 * digit_value (decimal (n div 10)) + n mod 10"
      by (subst decimal.simps) (simp add: digit_value_def of_char_digit)
    then show ?thesis using 1 False by simp
  qed
qed

lemma decimal_no_hyphen: "CHR ''-'' \<notin> set (decimal n)"
proof (induction n rule: decimal.induct)
  case (1 n)
  have "CHR ''-'' \<noteq> char_of (48 + d)" if "d < 10" for d :: nat
  proof
    assume "CHR ''-'' = char_of (48 + d)"
    then have "(of_char (char_of (48 + d) :: char) :: nat) = of_char CHR ''-''" by simp
    then show False using of_char_digit [OF that] by simp
  qed
  from this [of n] this [of "n mod 10"] 1 show ?case by (subst decimal.simps) simp
qed

lemma split_at_fresh:
  assumes "x \<notin> set xs" "x \<notin> set ys" "xs @ x # us = ys @ x # vs"
  shows "xs = ys \<and> us = vs"
  using assms
proof (induction xs arbitrary: ys)
  case Nil
  then show ?case by (cases ys) auto
next
  case (Cons x xs)
  then show ?case by (cases ys) auto
qed

lemma report_dir_inject: "report_dir pid seq = report_dir pid' seq' \<longleftrightarrow> pid = pid' \<and> seq = seq'"
proof
  assume "report_dir pid seq = report_dir pid' seq'"
  then have "decimal (unat pid) @ CHR ''-'' # decimal (unat seq) = decimal (unat pid') @ CHR ''-'' # decimal (unat seq')"
    by (simp add: report_dir_def path_join_def)
  then have "decimal (unat pid) = decimal (unat pid')" "decimal (unat seq) = decimal (unat seq')"
    using split_at_fresh [OF decimal_no_hyphen decimal_no_hyphen] by blast+
  then have "unat pid = unat pid'" "unat seq = unat seq'" by (metis digit_value_decimal)+
  then show "pid = pid' \<and> seq = seq'" by (simp add: word_unat_eq_iff)
qed simp

text \<open>
  Concurrent quotes never share a report entry: the entry's path determines the process and the
  counter value, and \<open>2 ^ 64\<close> requests take distinct counter values, so within that many
  requests no inblob can be read back as another request's quote.
\<close>

theorem report_entries_distinct:
  "(report_dir pid seq = report_dir pid' seq' \<longleftrightarrow> pid = pid' \<and> seq = seq') \<and>
   distinct (map (\<lambda>i. report_dir pid (seq + word_of_nat i)) [0..<2 ^ 64])"
proof -
  have "inj_on (\<lambda>i. report_dir pid (seq + word_of_nat i)) {0..<2 ^ 64}"
  proof (rule inj_onI)
    fix i j :: nat
    assume ij: "i \<in> {0..<2 ^ 64}" "j \<in> {0..<2 ^ 64}" "report_dir pid (seq + word_of_nat i) = report_dir pid (seq + word_of_nat j)"
    then have "(word_of_nat i :: u64) = word_of_nat j" by (simp add: report_dir_inject)
    then have "unat (word_of_nat i :: u64) = unat (word_of_nat j :: u64)" by simp
    then show "i = j" using ij(1,2) by (simp add: unsigned_of_nat take_bit_nat_eq_self del: word_of_nat_eq_iff)
  qed
  then show ?thesis by (simp only: report_dir_inject distinct_map set_upt distinct_upt)
qed

text \<open>A file system that only tracks entries and answers every read with one byte.\<close>

definition demo_fs :: "string set fs_lib" where
  "demo_fs = \<lparr>create_dir = (\<lambda>d f. (d \<notin> f, if d \<notin> f then insert d f else f)), write_file = (\<lambda>p b f. (True, f)),
     read_file = (\<lambda>p f. (Some [1], f)), remove_dir = (\<lambda>d f. (True, f - {d}))\<rparr>"

subsection \<open>GPU challenges\<close>

lemma gpu_preimage_inject:
  "length n = length n' \<Longrightarrow> length s = length s' \<Longrightarrow> n @ s @ [i :: u8] = n' @ s' @ [i'] \<longleftrightarrow> n = n' \<and> s = s' \<and> i = i'"
  by simp

lemma gpu_index_inject: "i < EXPECTED_GPU_COUNT \<Longrightarrow> j < EXPECTED_GPU_COUNT \<Longrightarrow> (word_of_nat i :: u8) = word_of_nat j \<longleftrightarrow> i = j"
  by (auto simp: EXPECTED_GPU_COUNT_def word_of_nat_eq_iff take_bit_nat_eq_self)

text \<open>
  C33: the GPU challenges are domain-separated: unless SHA-256 collides on the inputs concerned, the
  eight challenges of a request are pairwise different, and no challenge of a request equals one
  of a request with another client nonce (whatever the slots).
\<close>

theorem gpu_nonces_separate:
  assumes "inj_on sha {n @ spki @ [i] | n i. n \<in> {nonce, nonce'}}" "length nonce = length nonce'" "nonce \<noteq> nonce'"
  shows "distinct (gpu_nonces sha nonce spki) \<and> length (gpu_nonces sha nonce spki) = EXPECTED_GPU_COUNT \<and>
    set (gpu_nonces sha nonce spki) \<inter> set (gpu_nonces sha nonce' spki) = {}"
proof -
  have eq: "sha (n @ spki @ [i]) = sha (n' @ spki @ [i']) \<longleftrightarrow> n @ spki @ [i] = n' @ spki @ [i']"
    if "n \<in> {nonce, nonce'}" "n' \<in> {nonce, nonce'}" for n n' i i'
    using that by (intro inj_on_eq_iff [OF assms(1)]) blast+
  have "distinct (gpu_nonces sha nonce spki)"
    by (auto simp: gpu_nonces_def derive_gpu_nonce_def distinct_map inj_on_def eq gpu_index_inject)
  moreover have "set (gpu_nonces sha nonce spki) \<inter> set (gpu_nonces sha nonce' spki) = {}"
    using assms(2,3) by (auto simp: gpu_nonces_def derive_gpu_nonce_def eq)
  ultimately show ?thesis by (simp add: gpu_nonces_def)
qed

theorem gpu_nonces_separate_witness:
  "distinct (gpu_nonces (\<lambda>b. b) [1] [2]) \<and> set (gpu_nonces (\<lambda>b. b) [1] [2]) \<inter> set (gpu_nonces (\<lambda>b. b) [3] [2]) = {}"
  using gpu_nonces_separate [of "\<lambda>b. b" "[2]" "[1]" "[3]"] by (simp add: inj_on_def)

subsection \<open>The envelope\<close>

text \<open>What the client reads back from an envelope: the reports and chains it decodes to.\<close>

definition envelope_decodes :: "envelope \<Rightarrow> bytes \<Rightarrow> bytes list \<Rightarrow> (bytes \<times> bytes list) list \<Rightarrow> bool" where
  "envelope_decodes e quote chain gpus \<longleftrightarrow>
     version e = 2 \<and> cpu_vendor e = ''intel_tdx'' \<and>
     b64_decode_any (cpu_report e) = Some quote \<and>
     collect_opt b64_decode_any (cpu_chain e) = Some chain \<and>
     collect_opt b64_decode_any (gpu_reports e) = Some (map fst gpus) \<and>
     collect_opt (collect_opt b64_decode_any) (gpu_chains e) = Some (map snd gpus)"

lemma decode_std: "b64_decode_any (b64_encode bs) = Some bs"
  by (simp add: b64_decode_any_def decode_b64)

lemma build_envelope_decodes: "envelope_decodes (build_envelope quote chain gpus) quote chain gpus"
proof -
  have "collect_opt b64_decode_any (map (\<lambda>g. b64_encode (fst g)) gpus) = Some (map fst gpus)"
    "collect_opt b64_decode_any (map b64_encode c) = Some c" for c
    using collect_opt_map_Some [of c b64_decode_any b64_encode "\<lambda>x. x"] by (simp_all add: decode_std)
  moreover from this(2) have "collect_opt (collect_opt b64_decode_any) (map (\<lambda>g. map b64_encode (snd g)) gpus) = Some (map snd gpus)"
    by simp
  ultimately show ?thesis
    by (simp add: envelope_decodes_def build_envelope_def case_prod_unfold decode_std)
qed

lemma decode_gpu_nonempty: "decode_gpu g = Some (r, c) \<Longrightarrow> r \<noteq> [] \<and> c \<noteq> []"
  by (auto simp: decode_gpu_def split: option.splits if_splits)

lemma gpu_reports_all_Some:
  assumes "gpu_reports_all lib nonces = Some gpus"
  shows "length gpus = length nonces" "list_all (\<lambda>(r, c). r \<noteq> [] \<and> c \<noteq> []) gpus"
proof -
  obtain gs where gs: "length gs = length nonces" "collect_opt decode_gpu gs = Some gpus"
    using assms by (auto simp: gpu_reports_all_def Let_def split: option.splits if_splits)
  then show "length gpus = length nonces" using collect_opt_length by fastforce
  from gs(2) have "list_all2 (\<lambda>g x. decode_gpu g = Some x) gs gpus" by (simp add: collect_opt_Some_iff)
  then show "list_all (\<lambda>(r, c). r \<noteq> [] \<and> c \<noteq> []) gpus"
    by (induction rule: list_all2_induct) (auto dest: decode_gpu_nonempty)
qed

lemma attest_work_cases:
  obtains (granted) nonce quote gpus where
      "q_nonce \<noteq> None" "hex_decode (the q_nonce) = Some nonce" "length nonce = 32"
      "fst (tdx_quote (attest_fs libs) (process_id libs) (nonce @ spki) (SEQ env) (files env)) = Some quote"
      "gpu_reports_all (attest_gpu libs) (gpu_nonces (attest_sha256 libs) nonce spki) = Some gpus"
      "fst (attest_work libs spki q_nonce env) = ok_json (build_envelope quote (pck_chain_from_quote quote) gpus)"
  | (refused) code msg where "code \<in> {BAD_REQUEST, SERVICE_UNAVAILABLE}"
      "fst (attest_work libs spki q_nonce env) = err code msg"
proof -
  have "(\<exists>nonce quote gpus. q_nonce \<noteq> None \<and> hex_decode (the q_nonce) = Some nonce \<and> length nonce = 32 \<and>
      fst (tdx_quote (attest_fs libs) (process_id libs) (nonce @ spki) (SEQ env) (files env)) = Some quote \<and>
      gpu_reports_all (attest_gpu libs) (gpu_nonces (attest_sha256 libs) nonce spki) = Some gpus \<and>
      fst (attest_work libs spki q_nonce env) = ok_json (build_envelope quote (pck_chain_from_quote quote) gpus)) \<or>
    (\<exists>code \<in> {BAD_REQUEST, SERVICE_UNAVAILABLE}. \<exists>msg. fst (attest_work libs spki q_nonce env) = err code msg)"
    by (auto simp: attest_work_def Let_def case_prod_unfold split: option.splits)
  then show thesis using granted refused by blast
qed

text \<open>
  C21: the attestation endpoint answers a full envelope or fails closed. On 200 the request named a
  nonce of 32 bytes in hex; the quote was fetched for REPORTDATA \<open>nonce @ spki\<close> with the hash of this
  boot's TLS key; there are exactly eight GPU reports, for the challenges derived from that nonce and
  key, none of them empty; and the envelope decodes back to exactly these bytes. Every other
  answer is 400, 429 or 503.
\<close>

theorem attestation_binds_nonce_and_key:
  "case fst (attestation_handler libs now st env client q_nonce) of r \<Rightarrow>
     if status r = OK
     then \<exists>nonce_hex nonce quote gpus e. q_nonce = Some nonce_hex \<and> hex_decode nonce_hex = Some nonce \<and> length nonce = 32 \<and>
       fst (tdx_quote (attest_fs libs) (process_id libs) (nonce @ spki_sha256 (boot st)) (SEQ env) (files env)) = Some quote \<and>
       gpu_reports_all (attest_gpu libs) (gpu_nonces (attest_sha256 libs) nonce (spki_sha256 (boot st))) = Some gpus \<and>
       length gpus = EXPECTED_GPU_COUNT \<and> list_all (\<lambda>(r, c). r \<noteq> [] \<and> c \<noteq> []) gpus \<and>
       r = ok_json e \<and> envelope_decodes e quote (pck_chain_from_quote quote) gpus
     else status r \<in> {BAD_REQUEST, TOO_MANY_REQUESTS, SERVICE_UNAVAILABLE}"
proof -
  let ?spki = "spki_sha256 (boot st)" and ?r = "fst (attestation_handler libs now st env client q_nonce)"
  have r: "?r = err TOO_MANY_REQUESTS ''attestation rate limit'' \<or> ?r = fst (attest_work libs ?spki q_nonce env)"
    by (auto simp: attestation_handler_def Let_def case_prod_unfold split: option.splits)
  show ?thesis
  proof (cases rule: attest_work_cases [of q_nonce libs ?spki env])
    case (granted nonce quote gpus)
    then have "length gpus = EXPECTED_GPU_COUNT" "list_all (\<lambda>(r, c). r \<noteq> [] \<and> c \<noteq> []) gpus"
      using gpu_reports_all_Some [OF granted(5)] by (simp_all add: gpu_nonces_def)
    then show ?thesis using r granted build_envelope_decodes by auto
  next
    case (refused code msg)
    then show ?thesis using r by auto
  qed
qed

text \<open>
  C34: over the limit no work is done. The answer is 429 exactly when the connection has a client key
  and its bucket refuses the call, and then neither the quote counter nor the file system is
  touched; the bucket is the only thing in the state a request changes.
\<close>

theorem attestation_limited_does_no_work:
  "(if \<exists>pk. client = Some pk \<and> \<not> fst (allow_attestation now pk (members st))
    then status (fst (attestation_handler libs now st env client q_nonce)) = TOO_MANY_REQUESTS \<and>
         snd (snd (attestation_handler libs now st env client q_nonce)) = env
    else status (fst (attestation_handler libs now st env client q_nonce)) \<noteq> TOO_MANY_REQUESTS) \<and>
   fst (snd (attestation_handler libs now st env client q_nonce)) =
     (case client of None \<Rightarrow> st | Some pk \<Rightarrow> st\<lparr>members := snd (allow_attestation now pk (members st))\<rparr>)"
proof -
  have "status (fst (attest_work libs (spki_sha256 (boot st)) q_nonce env)) \<noteq> TOO_MANY_REQUESTS"
    by (cases rule: attest_work_cases [of q_nonce libs "spki_sha256 (boot st)" env]) auto
  then show ?thesis
    by (auto simp: attestation_handler_def Let_def case_prod_unfold split: option.splits)
qed

subsection \<open>Before and after the blocking task\<close>

text \<open>
  The handler's part before \<^verbatim>\<open>spawn_blocking\<close> yields a challenge or an answer; the part after the quote makes the answer. Requests interleave
  between the two.
\<close>

definition attest_challenge :: "string option \<Rightarrow> envelope response + bytes" where
  "attest_challenge q_nonce =
     (case q_nonce of None \<Rightarrow> Inl (err BAD_REQUEST ''missing nonce'')
      | Some nonce_hex \<Rightarrow>
        (case hex_decode nonce_hex of None \<Rightarrow> Inl (err BAD_REQUEST ''nonce must be 32 bytes hex'')
         | Some b \<Rightarrow> if length b = 32 then Inr b else Inl (err BAD_REQUEST ''nonce must be 32 bytes hex'')))"

definition attest_reply :: "'f attest_libs \<Rightarrow> bytes \<Rightarrow> bytes \<Rightarrow> bytes option \<Rightarrow> envelope response" where
  "attest_reply libs spki nonce q =
     (case q of None \<Rightarrow> err SERVICE_UNAVAILABLE ''attestation unavailable''
      | Some quote \<Rightarrow>
        (case gpu_reports_all (attest_gpu libs) (gpu_nonces (attest_sha256 libs) nonce spki) of
           None \<Rightarrow> err SERVICE_UNAVAILABLE ''attestation unavailable''
         | Some gpus \<Rightarrow> ok_json (build_envelope quote (pck_chain_from_quote quote) gpus)))"

lemma attest_work_split:
  "attest_work libs spki q_nonce env =
     (case attest_challenge q_nonce of Inl r \<Rightarrow> (r, env)
      | Inr nonce \<Rightarrow>
        (let (q, seq', f') = tdx_quote (attest_fs libs) (process_id libs) (nonce @ spki) (SEQ env) (files env)
         in (attest_reply libs spki nonce q, \<lparr>SEQ = seq', files = f'\<rparr>)))"
  by (auto simp: attest_work_def attest_challenge_def attest_reply_def Let_def split: option.splits prod.splits)

lemma attest_reply_ok:
  "attest_reply libs spki nonce q = ok_json e \<longleftrightarrow>
   (\<exists>quote gpus. q = Some quote \<and> gpu_reports_all (attest_gpu libs) (gpu_nonces (attest_sha256 libs) nonce spki) = Some gpus \<and>
      e = build_envelope quote (pck_chain_from_quote quote) gpus)"
  by (auto simp: attest_reply_def split: option.splits)

end
