(* ===== verification/Instance_System.thy ===== *)
theory Instance_System
  imports Enroll Manage Chat Attestation
begin

text \<open>
  The running instance: the router of \<^verbatim>\<open>src/src/lib.rs\<close> and the handlers sharing one member store.
  Requests are served concurrently; the handlers touch the store in atomic calls, so an execution
  is an interleaving of the steps below. /enroll and /attestation make one store call each;
  /manage makes two, the replay guard and the action, and between them any other step may run:
  an accepted action waits in \<open>pending\<close>. Chat requests only read the store.
\<close>

text \<open>The methods the router tells apart; a route for GET also serves HEAD, as axum's \<^verbatim>\<open>get\<close> documents.\<close>

datatype http_method = GET | HEAD | POST | Other_Method

datatype endpoint = Attestation_Handler | Enroll_Handler | Chat_Handler | Manage_Handler

definition build_router :: "(string \<times> http_method \<times> endpoint) list" where
  "build_router =
     [(''/attestation'', GET, Attestation_Handler),
      (''/enroll'', POST, Enroll_Handler),
      (''/v1/chat/completions'', POST, Chat_Handler),
      (''/manage'', POST, Manage_Handler)]"

definition route :: "http_method \<Rightarrow> string \<Rightarrow> endpoint option" where
  "route mth path =
     (case map_of build_router path of Some (m, h) \<Rightarrow> if m = mth \<or> (m = GET \<and> mth = HEAD) then Some h else None | None \<Rightarrow> None)"

record ('k, 'v, 'f) instance_state =
  app :: "('k, 'v) app_state"
  attest_state :: "'f attest_env"
  pending :: "manage_action list"

record ('k, 'v, 's, 'c, 'p, 'f) instance_libs =
  lib_enroll :: "('k, 'c, 'p) enroll_libs"
  lib_manage :: "('v, 's) manage_libs"
  lib_attest :: "'f attest_libs"
  lib_iter :: "(pubkey, member) iteration"

text \<open>The random bytes of an enrolment are no live bearer's.\<close>

definition fresh_random :: "bytes option \<Rightarrow> ('k, 'v) app_state \<Rightarrow> bool" where
  "fresh_random csprng st \<longleftrightarrow> (\<forall>buf. csprng = Some buf \<longrightarrow> \<not> contains_token (b64url_nopad buf) (members st))"

inductive instance_step ::
  "('k, 'v, 's, 'c, 'p, 'f) instance_libs \<Rightarrow> ('k, 'v, 'f) instance_state \<Rightarrow> ('k, 'v, 'f) instance_state \<Rightarrow> bool"
  for L where
  enroll: "enroll_handler (lib_enroll L) csprng (app i) client req = (out, st') \<Longrightarrow> fresh_random csprng (app i) \<Longrightarrow>
    instance_step L i (i\<lparr>app := st'\<rparr>)"
| attestation: "attestation_handler (lib_attest L) now (app i) (attest_state i) client q = (r, st', env') \<Longrightarrow>
    instance_step L i (i\<lparr>app := st', attest_state := env'\<rparr>)"
| manage_guard: "manage_authenticate (lib_manage L) (orch_manage_pubkey (trust (app i))) env = Inr a \<Longrightarrow>
    note_nonce (nonce a) (members (app i)) = (fresh, s') \<Longrightarrow>
    instance_step L i (i\<lparr>app := (app i)\<lparr>members := s'\<rparr>, pending := (if fresh then a # pending i else pending i)\<rparr>)"
| manage_action: "pending i = before @ a # after \<Longrightarrow> manage_apply (lib_iter L) a (members (app i)) = (r, s') \<Longrightarrow>
    instance_step L i (i\<lparr>app := (app i)\<lparr>members := s'\<rparr>, pending := before @ after\<rparr>)"

definition libs_ok :: "('k, 'v, 's, 'c, 'p, 'f) instance_libs \<Rightarrow> bool" where
  "libs_ok L \<longleftrightarrow> ulower_not_hex (unicode_lower (lib_enroll L)) \<and> iteration_of (lib_iter L)"

subsection \<open>The system invariant\<close>

text \<open>Every stored member is a line of the manifest.\<close>

definition members_listed :: "manifest \<Rightarrow> inner \<Rightarrow> bool" where
  "members_listed m s \<longleftrightarrow> (\<forall>pk mem. hm_get (by_pubkey s) pk = Some mem \<longrightarrow> (pk, stored_hash mem) \<in> manifest_pairs m)"

definition instance_inv :: "manifest \<Rightarrow> ('k, 'v, 'f) instance_state \<Rightarrow> bool" where
  "instance_inv m i \<longleftrightarrow> cohort (app i) = m \<and> store_inv (members (app i)) \<and> members_listed m (members (app i))"

lemma members_listed_frame: "by_pubkey s' = by_pubkey s \<Longrightarrow> members_listed m s' \<longleftrightarrow> members_listed m s"
  by (simp add: members_listed_def)

lemma members_listed_insert:
  assumes "members_listed m s" "(client_pubkey e, member_hash e) \<in> manifest_pairs m"
  shows "members_listed m (snd (member_insert e s))"
  using assms by (auto simp: members_listed_def member_insert_member split: if_splits)

lemma members_listed_revoke:
  assumes "iteration_of iter" "store_wf s" "members_listed m s"
  shows "members_listed m (snd (revoke_by_member_hash iter h s))"
  using assms(1,2)
proof (cases rule: revoke_cases [where h = h])
  case none
  then show ?thesis using assms(3) by simp
next
  case (some pk mem)
  then show ?thesis using assms(3) by (auto simp: members_listed_def split: if_splits)
qed

lemma enroll_keeps_inv:
  assumes "libs_ok L" "instance_inv m i" "fresh_random csprng (app i)"
    "enroll_handler (lib_enroll L) csprng (app i) client req = (out, st')"
  shows "instance_inv m (i\<lparr>app := st'\<rparr>)"
proof -
  have low: "ulower_not_hex (unicode_lower (lib_enroll L))" using assms(1) by (simp add: libs_ok_def)
  then show ?thesis
  proof (cases rule: enroll_cases [of "lib_enroll L" client "app i" req csprng])
    case (1 pk claims tx buf)
    let ?e = "enroll_entry (lib_enroll L) pk claims tx buf"
    have st': "st' = (app i)\<lparr>members := snd (member_insert ?e (members (app i)))\<rparr>" using 1(4) assms(4) by simp
    have "\<not> contains_token (session_token ?e) (members (app i))"
      using assms(3) 1(3) by (simp add: fresh_random_def enroll_entry_def)
    then have "store_inv (snd (member_insert ?e (members (app i))))"
      using store_exec_inv [OF iteration_id, of "members (app i)" "Insert ?e"] assms(2) by (simp add: instance_inv_def)
    moreover have "members_listed m (snd (member_insert ?e (members (app i))))"
      using assms(2) 1(2) by (intro members_listed_insert) (simp_all add: instance_inv_def enroll_policy_def enroll_entry_def)
    ultimately show ?thesis using assms(2) st' by (simp add: instance_inv_def)
  qed (use assms in \<open>auto simp: instance_inv_def\<close>)
qed

lemma attestation_keeps_inv:
  assumes "instance_inv m i" "attestation_handler libs now (app i) env client q = (r, st', env')"
  shows "instance_inv m (i\<lparr>app := st', attest_state := env'\<rparr>)"
proof -
  have "st' = app i \<or> (\<exists>pk. st' = (app i)\<lparr>members := snd (allow_attestation now pk (members (app i)))\<rparr>)"
    using assms(2) by (auto simp: attestation_handler_def Let_def case_prod_unfold split: option.splits if_splits)
  then show ?thesis
    using assms(1) store_exec_inv [OF iteration_id, of "members (app i)" "Allow_Attestation now _"]
      members_listed_frame [of "snd (allow_attestation now _ (members (app i)))" "members (app i)"]
    by (auto simp: instance_inv_def allow_attestation_frame)
qed

lemma manage_keeps_inv:
  assumes "iteration_of iter" "instance_inv m i"
  shows "instance_inv m (i\<lparr>app := (app i)\<lparr>members := snd (note_nonce n (members (app i)))\<rparr>, pending := ps\<rparr>)"
    "instance_inv m (i\<lparr>app := (app i)\<lparr>members := snd (manage_apply iter a (members (app i)))\<rparr>, pending := ps\<rparr>)"
proof -
  show "instance_inv m (i\<lparr>app := (app i)\<lparr>members := snd (note_nonce n (members (app i)))\<rparr>, pending := ps\<rparr>)"
    using assms(2) members_listed_frame [of "snd (note_nonce n (members (app i)))" "members (app i)"]
    by (simp add: instance_inv_def note_nonce_inv)
  have "store_inv (members (app i))" "members_listed m (members (app i))" using assms(2) by (simp_all add: instance_inv_def)
  then have "members_listed m (snd (manage_apply iter a (members (app i))))"
    using members_listed_revoke [OF assms(1), of "members (app i)"]
    by (auto simp: manage_apply_def store_inv_def case_prod_unfold Let_def split: option.splits)
  then show "instance_inv m (i\<lparr>app := (app i)\<lparr>members := snd (manage_apply iter a (members (app i)))\<rparr>, pending := ps\<rparr>)"
    using assms manage_apply_inv by (simp add: instance_inv_def)
qed

lemma instance_step_inv:
  assumes "libs_ok L" "instance_inv m i" "instance_step L i j"
  shows "instance_inv m j"
  using assms(3)
proof (cases rule: instance_step.cases)
  case (enroll csprng client req out st')
  then show ?thesis using enroll_keeps_inv [OF assms(1,2)] by simp
next
  case (attestation now client q r st' env')
  then show ?thesis using attestation_keeps_inv [OF assms(2)] by simp
next
  case (manage_guard env a fresh s')
  then have "s' = snd (note_nonce (nonce a) (members (app i)))" by simp
  then show ?thesis
    using manage_guard(1) manage_keeps_inv(1) [OF _ assms(2)] assms(1) unfolding libs_ok_def by blast
next
  case (manage_action before a after r s')
  then have "s' = snd (manage_apply (lib_iter L) a (members (app i)))" by simp
  then show ?thesis
    using manage_action(1) manage_keeps_inv(2) [OF _ assms(2)] assms(1) unfolding libs_ok_def by blast
qed

text \<open>A freshly booted instance: an empty store, nothing pending.\<close>

definition boot_instance :: "('k, 'v) app_state \<Rightarrow> 'f attest_env \<Rightarrow> ('k, 'v, 'f) instance_state" where
  "boot_instance st env = \<lparr>app = st\<lparr>members := default_inner\<rparr>, attest_state = env, pending = []\<rparr>"

definition guarded_instance_step ::
  "('k, 'v, 's, 'c, 'p, 'f) instance_libs \<Rightarrow> ('k, 'v, 'f) instance_state \<Rightarrow> ('k, 'v, 'f) instance_state \<Rightarrow> bool" where
  "guarded_instance_step L i j \<longleftrightarrow> libs_ok L \<and> instance_step L i j"

lemma boot_instance_inv: "instance_inv (cohort st) (boot_instance st env)"
  using default_inner_inv by (simp add: boot_instance_def instance_inv_def members_listed_def default_inner_empty)

interpretation inst: invariant_system "boot_instance st env" "guarded_instance_step L" "instance_inv (cohort st)" for st env L
  by unfold_locales (auto simp: boot_instance_inv guarded_instance_step_def intro: instance_step_inv)

lemma reachable_instance_inv:
  "libs_ok L \<Longrightarrow> reachable (boot_instance st env) (instance_step L) i \<Longrightarrow> instance_inv (cohort st) i"
  using inst.inv_reachable reachable_mono [of "boot_instance st env" "instance_step L" i "guarded_instance_step L"]
  by (simp add: guarded_instance_step_def)

subsection \<open>What the running instance guarantees\<close>

text \<open>
  C4: in every state that any interleaving of requests reaches after boot, each bearer that resolves, resolves
  to a (public key, member hash) pair of the cohort manifest, and no public key holds more than
  \<open>DEVICE_CAP\<close> bearers.
\<close>

theorem live_bearers_are_members:
  assumes "libs_ok L" "reachable (boot_instance st env) (instance_step L) i"
    "get_by_token t (members (app i)) = Some e"
  shows "(client_pubkey e, member_hash e) \<in> manifest_pairs (cohort st) \<and>
    t \<in> set (live_sessions (members (app i)) (client_pubkey e)) \<and>
    session_count (client_pubkey e) (members (app i)) \<le> DEVICE_CAP"
proof -
  have inv: "store_wf (members (app i))" "members_listed (cohort st) (members (app i))"
    using reachable_instance_inv [OF assms(1,2)] by (simp_all add: instance_inv_def store_inv_def)
  then show ?thesis
    using assms(3) get_by_token_iff [OF inv(1), of t e] store_wfD(4) [OF inv(1)]
    by (auto simp: members_listed_def session_count_live)
qed

definition demo_instance_libs :: "(nat, nat, bytes, nat, nat, string set) instance_libs" where
  "demo_instance_libs = \<lparr>lib_enroll = demo_libs, lib_manage = demo_manage_libs,
     lib_attest = \<lparr>attest_fs = demo_fs, attest_gpu = \<lparr>IRON_GPU_REPORT_CMD = None, command_output = (\<lambda>_ _. None),
       helper_from_slice = (\<lambda>_. None)\<rparr>, attest_sha256 = (\<lambda>b. b), process_id = 1\<rparr>,
     lib_iter = (\<lambda>m. m)\<rparr>"

lemma demo_libs_ok: "libs_ok demo_instance_libs"
  using demo_lower iteration_id by (simp add: libs_ok_def demo_instance_libs_def)

definition demo_boot_instance :: "(nat, nat, string set) instance_state" where
  "demo_boot_instance = boot_instance demo_state \<lparr>SEQ = 0, files = {}\<rparr>"

lemma demo_boot_app: "app demo_boot_instance = demo_state"
  by (simp add: demo_boot_instance_def boot_instance_def demo_state_def)

lemma demo_enrolled: "reachable demo_boot_instance (instance_step demo_instance_libs) (demo_boot_instance\<lparr>app := snd demo_enroll\<rparr>)"
proof (rule reachable.reachable_step [OF reachable.reachable_init])
  show "instance_step demo_instance_libs demo_boot_instance (demo_boot_instance\<lparr>app := snd demo_enroll\<rparr>)"
  proof (rule instance_step.enroll)
    show "enroll_handler (lib_enroll demo_instance_libs) (Some (replicate 32 7)) (app demo_boot_instance) (Some [4, 1]) demo_request
        = (fst demo_enroll, snd demo_enroll)"
      by (simp add: demo_boot_app demo_instance_libs_def demo_enroll_def)
    show "fresh_random (Some (replicate 32 7)) (app demo_boot_instance)"
      by (simp add: fresh_random_def demo_boot_app demo_state_def default_inner_empty)
  qed
qed

theorem live_bearers_are_members_witness:
  "\<exists>t e. get_by_token t (members (snd demo_enroll)) = Some e \<and> (client_pubkey e, member_hash e) \<in> manifest_pairs (cohort demo_state)"
proof -
  obtain t e where "get_by_token t (members (snd demo_enroll)) = Some e" using demo_resolves by blast
  then show ?thesis
    using live_bearers_are_members [OF demo_libs_ok demo_enrolled [unfolded demo_boot_instance_def], of t e]
    by (auto simp: demo_boot_instance_def boot_instance_def)
qed

end
