(* ===== verification/Mtls.thy ===== *)
theory Mtls
  imports Cohort_Manifest Storekit
begin

text \<open>
  \<^verbatim>\<open>src/src/mtls.rs\<close>: the handshake gate. The client's certificate is reduced to its public point, the point
  must be in the cohort manifest, and every request on an accepted connection carries the point.
  \<^verbatim>\<open>rustls\<close> is the record \<open>tls_lib\<close>: its signature verification, its configuration builder and its
  accept. \<open>'a\<close> is a crypto provider, \<open>'d\<close> a handshake signature, \<open>'i\<close> an incoming stream.

  \<open>mandatory_client_auth\<close> is what rustls documents of a server configured with a client certificate
  verifier: an accepted session has a peer leaf, and the verifier accepted it.
\<close>

definition client_point_from_cert :: "('c, 'p) x509_lib \<Rightarrow> bytes \<Rightarrow> bytes option" where
  "client_point_from_cert x der =
     (case from_der x der of None \<Rightarrow> None
      | Some cert \<Rightarrow>
          (let point = subject_public_key_data x (public_key x cert) in
           if length point \<noteq> 65 \<or> point ! 0 \<noteq> 0x04 then None else Some point))"

record 'a manifest_client_verifier =
  ver_manifest :: manifest
  ver_provider :: 'a

definition root_hint_subjects :: "'a manifest_client_verifier \<Rightarrow> bytes list" where
  "root_hint_subjects v = []"

definition verify_client_cert ::
  "('c, 'p) x509_lib \<Rightarrow> 'a manifest_client_verifier \<Rightarrow> bytes \<Rightarrow> bytes list \<Rightarrow> nat \<Rightarrow> string + unit" where
  "verify_client_cert x v end_entity intermediates now =
     (case client_point_from_cert x end_entity of
        None \<Rightarrow> Inl ''client leaf is not a P-256 X9.63 key''
      | Some point \<Rightarrow>
          if \<not> contains_pubkey (ver_manifest v) point then Inl ''client pubkey not in cohort manifest''
          else Inr ())"

record 'a server_config =
  protocol_versions :: "string list"
  cert_verifier :: "'a manifest_client_verifier"
  cert_chain :: "bytes list"
  private_key :: bytes

record ('a, 'd, 'i) tls_lib =
  default_provider :: 'a
  tls12_signature :: "'a \<Rightarrow> bytes \<Rightarrow> bytes \<Rightarrow> 'd \<Rightarrow> bool"
  tls13_signature :: "'a \<Rightarrow> bytes \<Rightarrow> bytes \<Rightarrow> 'd \<Rightarrow> bool"
  supported_schemes :: "'a \<Rightarrow> nat list"
  versions_supported :: "'a \<Rightarrow> string list \<Rightarrow> bool"
  single_cert_ok :: "bytes list \<Rightarrow> bytes \<Rightarrow> bool"
  rustls_accept :: "'a server_config \<Rightarrow> 'i \<Rightarrow> bytes list option option"

definition verify_tls12_signature :: "('a, 'd, 'i) tls_lib \<Rightarrow> 'a manifest_client_verifier \<Rightarrow> bytes \<Rightarrow> bytes \<Rightarrow> 'd \<Rightarrow> bool" where
  "verify_tls12_signature lib v message cert dss = tls12_signature lib (ver_provider v) message cert dss"

definition verify_tls13_signature :: "('a, 'd, 'i) tls_lib \<Rightarrow> 'a manifest_client_verifier \<Rightarrow> bytes \<Rightarrow> bytes \<Rightarrow> 'd \<Rightarrow> bool" where
  "verify_tls13_signature lib v message cert dss = tls13_signature lib (ver_provider v) message cert dss"

definition supported_verify_schemes :: "('a, 'd, 'i) tls_lib \<Rightarrow> 'a manifest_client_verifier \<Rightarrow> nat list" where
  "supported_verify_schemes lib v = supported_schemes lib (ver_provider v)"

text \<open>The function \<^verbatim>\<open>server_config\<close>; \<open>None\<close> is a configuration error.\<close>

definition make_server_config ::
  "('a, 'd, 'i) tls_lib \<Rightarrow> manifest \<Rightarrow> bytes \<Rightarrow> bytes \<Rightarrow> 'a server_config option" where
  "make_server_config lib m cert_der key_der =
     (let provider = default_provider lib;
          verifier = \<lparr>ver_manifest = m, ver_provider = provider\<rparr>
      in if \<not> versions_supported lib provider [''TLS13''] then None
         else if \<not> single_cert_ok lib [cert_der] key_der then None
         else Some \<lparr>protocol_versions = [''TLS13''], cert_verifier = verifier, cert_chain = [cert_der], private_key = key_der\<rparr>)"

text \<open>
  \<^verbatim>\<open>MtlsAcceptor::accept\<close>: \<open>None\<close> when the handshake fails; the peer certificates are \<open>None\<close> when
  the session has none. The service wrapper keeps the peer's point.
\<close>

record add_client_pubkey =
  conn_pubkey :: "bytes option"

definition mtls_accept ::
  "('c, 'p) x509_lib \<Rightarrow> ('a, 'd, 'i) tls_lib \<Rightarrow> 'a server_config \<Rightarrow> 'i \<Rightarrow> add_client_pubkey option" where
  "mtls_accept x lib cfg stream =
     (case rustls_accept lib cfg stream of None \<Rightarrow> None
      | Some peer_certificates \<Rightarrow>
          (let pubkey = (case peer_certificates of None \<Rightarrow> None
                 | Some chain \<Rightarrow> (case chain of [] \<Rightarrow> None | leaf # _ \<Rightarrow> client_point_from_cert x leaf))
           in Some \<lparr>conn_pubkey = pubkey\<rparr>))"

text \<open>A request as the router sees it: the \<^verbatim>\<open>ClientPubkey\<close> extension and the rest.\<close>

record 'r http_request =
  ext_client_pubkey :: "bytes option"
  request :: 'r

definition add_client_pubkey_call :: "add_client_pubkey \<Rightarrow> ('r http_request \<Rightarrow> 'b) \<Rightarrow> 'r http_request \<Rightarrow> 'b" where
  "add_client_pubkey_call svc inner_call req =
     inner_call (case conn_pubkey svc of Some pk \<Rightarrow> req\<lparr>ext_client_pubkey := Some pk\<rparr> | None \<Rightarrow> req)"

subsection \<open>The gate\<close>

definition mandatory_client_auth :: "('c, 'p) x509_lib \<Rightarrow> ('a, 'd, 'i) tls_lib \<Rightarrow> bool" where
  "mandatory_client_auth x lib \<longleftrightarrow>
     (\<forall>cfg stream peer. rustls_accept lib cfg stream = Some peer \<longrightarrow>
        (\<exists>leaf rest now. peer = Some (leaf # rest) \<and> verify_client_cert x (cert_verifier cfg) leaf rest now = Inr ()))"

definition x963_point :: "bytes \<Rightarrow> bool" where
  "x963_point pk \<longleftrightarrow> length pk = 65 \<and> pk ! 0 = 0x04"

lemma client_point_shape: "client_point_from_cert x der = Some pk \<Longrightarrow> x963_point pk"
  by (auto simp: client_point_from_cert_def x963_point_def Let_def split: option.splits if_splits)

lemma verify_client_cert_iff:
  "verify_client_cert x v leaf rest now = Inr () \<longleftrightarrow>
    (\<exists>pk. client_point_from_cert x leaf = Some pk \<and> contains_pubkey (ver_manifest v) pk)"
  by (auto simp: verify_client_cert_def split: option.splits)

lemma make_server_config_Some:
  assumes "make_server_config lib m cert key = Some cfg"
  shows "cert_chain cfg = [cert]" "private_key cfg = key" "ver_manifest (cert_verifier cfg) = m"
    "protocol_versions cfg = [''TLS13'']"
  using assms by (auto simp: make_server_config_def Let_def split: if_splits)

lemma accepted_has_member_key:
  assumes "mandatory_client_auth x lib" "make_server_config lib m cert key = Some cfg" "mtls_accept x lib cfg stream = Some svc"
  obtains pk where "conn_pubkey svc = Some pk" "x963_point pk" "contains_pubkey m pk"
proof -
  note m = make_server_config_Some(3) [OF assms(2)]
  obtain peer where "rustls_accept lib cfg stream = Some peer"
    using assms(3) by (auto simp: mtls_accept_def split: option.splits)
  with assms(1) obtain leaf rest now where *: "rustls_accept lib cfg stream = Some (Some (leaf # rest))"
    "verify_client_cert x (cert_verifier cfg) leaf rest now = Inr ()"
    unfolding mandatory_client_auth_def by blast
  then obtain pk where "client_point_from_cert x leaf = Some pk" "contains_pubkey m pk"
    by (auto simp: verify_client_cert_iff m)
  moreover from this(1) have "conn_pubkey svc = Some pk"
    using assms(3) *(1) by (auto simp: mtls_accept_def)
  ultimately show thesis using that client_point_shape by blast
qed

text \<open>
  C9: every request that reaches the router over a connection of this server carries a client key, that
  key is an uncompressed X9.63 point of 65 bytes, and it is in the cohort manifest; whatever the
  request claimed itself is overwritten. With the empty default manifest no connection is accepted.
\<close>

theorem requests_carry_member_key:
  assumes "mandatory_client_auth x lib" "make_server_config lib m cert key = Some cfg" "mtls_accept x lib cfg stream = Some svc"
  shows "m \<noteq> default_manifest \<and>
    (\<exists>pk. x963_point pk \<and> contains_pubkey m pk \<and>
       add_client_pubkey_call svc inner_call req = inner_call (req\<lparr>ext_client_pubkey := Some pk\<rparr>))"
proof -
  obtain pk where "conn_pubkey svc = Some pk" "x963_point pk" "contains_pubkey m pk"
    using accepted_has_member_key [OF assms] .
  then show ?thesis using default_manifest_closed by (auto simp: add_client_pubkey_call_def)
qed

text \<open>A certificate that is its own key, and a TLS stack that accepts a stream when its certificate verifies.\<close>

definition raw_x509 :: "(bytes, bytes) x509_lib" where
  "raw_x509 = \<lparr>from_der = Some, public_key = (\<lambda>c. c), subject_public_key_data = (\<lambda>p. p),
     verify_signature = (\<lambda>_ _. False), validity_is_valid = (\<lambda>_. True), cert_basic_constraints = (\<lambda>_. Inr None),
     cert_key_usage = (\<lambda>_. Inr None)\<rparr>"

definition demo_tls :: "(unit, unit, bytes) tls_lib" where
  "demo_tls = \<lparr>default_provider = (), tls12_signature = (\<lambda>_ _ _ _. True), tls13_signature = (\<lambda>_ _ _ _. True),
     supported_schemes = (\<lambda>_. []), versions_supported = (\<lambda>_ _. True), single_cert_ok = (\<lambda>_ _. True),
     rustls_accept = (\<lambda>cfg leaf. if verify_client_cert raw_x509 (cert_verifier cfg) leaf [] 0 = Inr ()
                                  then Some (Some [leaf]) else None)\<rparr>"

definition demo_point :: bytes where "demo_point = 0x04 # replicate 64 7"

definition demo_cohort :: manifest where
  "demo_cohort = \<lparr>cohort_id = ''c'', manifest_members = [\<lparr>pubkey = hex_encode demo_point, hash = ''00''\<rparr>]\<rparr>"

lemma demo_tls_auth: "mandatory_client_auth raw_x509 demo_tls"
  unfolding mandatory_client_auth_def demo_tls_def by auto

theorem requests_carry_member_key_witness:
  "\<exists>cfg svc pk. make_server_config demo_tls demo_cohort [1] [2] = Some cfg \<and> mtls_accept raw_x509 demo_tls cfg demo_point = Some svc \<and>
     contains_pubkey demo_cohort pk \<and>
     add_client_pubkey_call svc ext_client_pubkey \<lparr>ext_client_pubkey = Some [9], request = ()\<rparr> = Some pk"
proof -
  obtain cfg where cfg: "make_server_config demo_tls demo_cohort [1] [2] = Some cfg"
    "ver_manifest (cert_verifier cfg) = demo_cohort"
    by (simp add: make_server_config_def demo_tls_def)
  have "contains_pubkey demo_cohort demo_point"
    by (simp add: contains_pubkey_iff demo_cohort_def hex_decode_encode)
  moreover have "client_point_from_cert raw_x509 demo_point = Some demo_point"
    by (simp add: client_point_from_cert_def raw_x509_def demo_point_def)
  ultimately have "verify_client_cert raw_x509 (cert_verifier cfg) demo_point [] 0 = Inr ()"
    by (simp add: verify_client_cert_iff cfg(2))
  then obtain svc where svc: "mtls_accept raw_x509 demo_tls cfg demo_point = Some svc"
    by (simp add: mtls_accept_def demo_tls_def)
  show ?thesis
    using requests_carry_member_key [OF demo_tls_auth cfg(1) svc, of ext_client_pubkey "\<lparr>ext_client_pubkey = Some [9], request = ()\<rparr>"]
      cfg(1) svc by auto
qed

end
