(* ===== verification/Instance_Boot.thy ===== *)
theory Instance_Boot
  imports Enroll Mtls Attestation
begin

text \<open>
  \<^verbatim>\<open>main\<close> of \<^verbatim>\<open>src/src/main.rs\<close>: what the process sets up before it serves. Key generation, the
  environment, the manifest file and the pinned data files are the record \<open>boot_libs\<close>; each
  \<^verbatim>\<open>expect\<close> is a panic with its message. The result is the state handed to the router, the TLS
  configuration, the port, and the lines that are printed. \<open>main_run\<close> adds the serving itself, which ends the process when it fails.
\<close>

definition APPACCOUNT_NAMESPACE :: bytes where
  "APPACCOUNT_NAMESPACE =
     [0xda, 0xfb, 0x6e, 0x23, 0x9c, 0x4d, 0x5d, 0x27, 0xaa, 0x05, 0x3f, 0x6c, 0x2e, 0x9e, 0x7b, 0x14]"

record key_pair =
  subject_public_key_info :: bytes
  serialize_der :: bytes

record ('k, 'v, 'a, 'd, 'i) boot_libs =
  generate_key :: "key_pair option"
  certificate_params :: bool
  self_signed :: "key_pair \<Rightarrow> bytes option"
  boot_sha256 :: "bytes \<Rightarrow> bytes"
  IRON_MANIFEST_PATH :: "string option"
  fs_read :: "string \<Rightarrow> bytes option"
  manifest_from_slice :: "bytes \<Rightarrow> unit + manifest"
  pinned_jwks :: bytes
  jwks_from_slice :: "bytes \<Rightarrow> jwk list option"
  rsa_components :: "string \<Rightarrow> string \<Rightarrow> 'k option"
  pinned_orch_key :: bytes
  from_sec1_bytes :: "bytes \<Rightarrow> 'v option"
  boot_tls :: "('a, 'd, 'i) tls_lib"
  IRON_INSTANCE_PORT :: "string option"

record ('k, 'v, 'a) booted =
  boot_state :: "('k, 'v) app_state"
  boot_config :: "'a server_config"
  boot_port :: u16
  boot_stdout :: "string list"

definition load_manifest :: "('k, 'v, 'a, 'd, 'i) boot_libs \<Rightarrow> manifest outcome" where
  "load_manifest b =
     (case IRON_MANIFEST_PATH b of
        None \<Rightarrow> Return default_manifest
      | Some path \<Rightarrow>
          (case fs_read b path of None \<Rightarrow> Panic ''manifest file''
           | Some raw \<Rightarrow> (case from_bytes (manifest_from_slice b) raw of
               Inl _ \<Rightarrow> Panic ''manifest parse'' | Inr m \<Rightarrow> Return m)))"

text \<open>\<^verbatim>\<open>str::parse::<u16>\<close>: an optional plus sign, then decimal digits of a value below \<open>2 ^ 16\<close>.\<close>

definition is_digit :: "char \<Rightarrow> bool" where
  "is_digit c \<longleftrightarrow> 48 \<le> (of_char c :: nat) \<and> (of_char c :: nat) \<le> 57"

definition parse_u16 :: "string \<Rightarrow> u16 option" where
  "parse_u16 s =
     (let ds = (case s of c # cs \<Rightarrow> if c = CHR ''+'' then cs else s | [] \<Rightarrow> [])
      in if ds = [] \<or> \<not> list_all is_digit ds then None
         else if digit_value ds < 2 ^ 16 then Some (word_of_nat (digit_value ds)) else None)"

definition select_port :: "string option \<Rightarrow> u16" where
  "select_port var =
     (case var of None \<Rightarrow> 443 | Some s \<Rightarrow> (case parse_u16 s of None \<Rightarrow> 443 | Some p \<Rightarrow> p))"

definition make_anchors :: "('k, 'v, 'a, 'd, 'i) boot_libs \<Rightarrow> ('k, 'v) anchors outcome" where
  "make_anchors b =
     (case load_apple_jwt_keys (jwks_from_slice b) (rsa_components b) (pinned_jwks b) of
        Panic msg \<Rightarrow> Panic msg
      | Return keys \<Rightarrow>
          (case from_sec1_bytes b (pinned_orch_key b) of
             None \<Rightarrow> Panic ''pinned Orchestrator pubkey''
           | Some vk \<Rightarrow> Return \<lparr>apple_jwt_keys = keys, apple_issuer = APPLE_ISSUER, apple_audience = APPLE_AUDIENCE,
               storekit_bundle_id = APPLE_AUDIENCE, storekit_root_sha256 = APPLE_ROOT_CA_G3_SHA256,
               appaccount_namespace = APPACCOUNT_NAMESPACE, orch_manage_pubkey = vk\<rparr>))"

text \<open>The two \<^verbatim>\<open>println!\<close> lines; \<^verbatim>\<open>{addr}\<close> is the address \<^verbatim>\<open>0.0.0.0\<close> with the port in decimal.\<close>

definition boot_lines :: "bytes \<Rightarrow> u16 \<Rightarrow> string list" where
  "boot_lines spki port =
     [''iron-instance: boot TLS SPKI SHA-256 = '' @ to_hex spki,
      ''iron-instance: listening on https://0.0.0.0:'' @ decimal (unat port) @ '' (mTLS: client cert required, manifest-gated)'']"

definition main_boot :: "('k, 'v, 'a, 'd, 'i) boot_libs \<Rightarrow> ('k, 'v, 'a) booted outcome" where
  "main_boot b =
     (case generate_key b of None \<Rightarrow> Panic ''boot keygen''
      | Some kp \<Rightarrow>
        (let spki = boot_sha256 b (subject_public_key_info kp) in
         if \<not> certificate_params b then Panic ''cert params''
         else (case self_signed b kp of None \<Rightarrow> Panic ''self-sign leaf''
           | Some cert_der \<Rightarrow>
             (case load_manifest b of Panic msg \<Rightarrow> Panic msg
              | Return m \<Rightarrow>
                (case make_anchors b of Panic msg \<Rightarrow> Panic msg
                 | Return a \<Rightarrow>
                   (case make_server_config (boot_tls b) m cert_der (serialize_der kp) of None \<Rightarrow> Panic ''tls config''
                    | Some cfg \<Rightarrow>
                      Return \<lparr>boot_state = \<lparr>boot = \<lparr>spki_sha256 = spki\<rparr>, members = default_inner, cohort = m, trust = a\<rparr>,
                              boot_config = cfg, boot_port = select_port (IRON_INSTANCE_PORT b),
                              boot_stdout = boot_lines spki (select_port (IRON_INSTANCE_PORT b))\<rparr>))))))"

text \<open>\<open>serve_ends\<close> is how \<^verbatim>\<open>axum_server\<close>'s accept loop ends, if it does: whether without an error.\<close>

definition main_run :: "('k, 'v, 'a, 'd, 'i) boot_libs \<Rightarrow> (('k, 'v, 'a) booted \<Rightarrow> bool) \<Rightarrow> unit outcome" where
  "main_run b serve_ends =
     (case main_boot b of Panic msg \<Rightarrow> Panic msg
      | Return r \<Rightarrow> if serve_ends r then Return () else Panic ''serve'')"

subsection \<open>The port\<close>

lemma decimal_nonempty: "decimal n \<noteq> []"
  by (subst decimal.simps) simp

lemma decimal_digits: "list_all is_digit (decimal n)"
proof (induction n rule: decimal.induct)
  case (1 n)
  have "is_digit (char_of (48 + d))" if "d < 10" for d :: nat
    using of_char_digit [OF that] that by (simp add: is_digit_def)
  from this [of n] this [of "n mod 10"] 1 show ?case by (subst decimal.simps) simp
qed

lemma parse_decimal: "n < 2 ^ 16 \<Longrightarrow> parse_u16 (decimal n) = Some (word_of_nat n)"
proof -
  assume "n < 2 ^ 16"
  moreover have "(case decimal n of c # cs \<Rightarrow> if c = CHR ''+'' then cs else decimal n | [] \<Rightarrow> []) = decimal n"
    using decimal_digits [of n] by (cases "decimal n") (auto simp: is_digit_def)
  ultimately show ?thesis
    using decimal_digits [of n] decimal_nonempty [of n] by (simp add: parse_u16_def digit_value_decimal Let_def)
qed

subsection \<open>What boot establishes\<close>

lemma make_anchors_Return:
  assumes "make_anchors b = Return a"
  shows "storekit_root_sha256 a = APPLE_ROOT_CA_G3_SHA256" "storekit_bundle_id a = ''com.rayeeev.IronServer''"
    "appaccount_namespace a = APPACCOUNT_NAMESPACE"
    "apple_issuer a = ''https://appleid.apple.com''" "apple_audience a = ''com.rayeeev.IronServer''"
    "from_sec1_bytes b (pinned_orch_key b) = Some (orch_manage_pubkey a)"
    "\<exists>jwks. jwks_from_slice b (pinned_jwks b) = Some jwks \<and>
       (\<forall>kid. hm_get (apple_jwt_keys a) kid = map_of (rev (List.map_filter (usable_key (rsa_components b)) jwks)) kid)"
  using assms
  by (auto simp: make_anchors_def load_apple_jwt_keys_def load_keys_loop_get APPLE_ISSUER_def APPLE_AUDIENCE_def
      split: outcome.splits option.splits)

lemma main_boot_Return:
  assumes "main_boot b = Return r"
  obtains kp cert where "generate_key b = Some kp" "self_signed b kp = Some cert"
    "load_manifest b = Return (cohort (boot_state r))" "make_anchors b = Return (trust (boot_state r))"
    "make_server_config (boot_tls b) (cohort (boot_state r)) cert (serialize_der kp) = Some (boot_config r)"
    "boot (boot_state r) = \<lparr>spki_sha256 = boot_sha256 b (subject_public_key_info kp)\<rparr>"
    "members (boot_state r) = default_inner" "boot_stdout r = boot_lines (spki_sha256 (boot (boot_state r))) (boot_port r)"
    "boot_port r = select_port (IRON_INSTANCE_PORT b)"
  using assms by (auto simp: main_boot_def Let_def split: option.splits outcome.splits if_splits)

text \<open>
  C38: a process that boots serves with a consistent set of anchors: the hash bound into attestation is
  that of the key pair the TLS leaf is made of, and it is the printed one, above the line with the port that is served; the manifest the handshake enforces is the one
  /enroll consults, the empty one if no file is named, else what the named file parses to; the store starts empty. All seven anchors are the pinned
  ones: Apple's issuer, the app's bundle id as audience and as StoreKit bundle id, the StoreKit root hash, the account namespace, the orchestrator key that the pinned
  bytes encode, and an Apple key table that maps a key id to the last usable key of the pinned key set with that id and nothing else. The port is the environment's decimal number, 443 if there is none.
\<close>

theorem boot_is_consistent:
  assumes "main_boot b = Return r"
  shows "\<exists>kp cert. generate_key b = Some kp \<and> self_signed b kp = Some cert \<and>
      cert_chain (boot_config r) = [cert] \<and> private_key (boot_config r) = serialize_der kp \<and>
      spki_sha256 (boot (boot_state r)) = boot_sha256 b (subject_public_key_info kp) \<and>
      boot_stdout r = [''iron-instance: boot TLS SPKI SHA-256 = '' @ hex_encode (spki_sha256 (boot (boot_state r))),
        ''iron-instance: listening on https://0.0.0.0:'' @ decimal (unat (boot_port r)) @ '' (mTLS: client cert required, manifest-gated)''] \<and>
      ver_manifest (cert_verifier (boot_config r)) = cohort (boot_state r) \<and>
      (case IRON_MANIFEST_PATH b of None \<Rightarrow> cohort (boot_state r) = default_manifest
       | Some path \<Rightarrow> \<exists>raw. fs_read b path = Some raw \<and> manifest_from_slice b raw = Inr (cohort (boot_state r))) \<and>
      members (boot_state r) = default_inner \<and>
      storekit_root_sha256 (trust (boot_state r)) = APPLE_ROOT_CA_G3_SHA256 \<and>
      storekit_bundle_id (trust (boot_state r)) = ''com.rayeeev.IronServer'' \<and>
      appaccount_namespace (trust (boot_state r)) = APPACCOUNT_NAMESPACE \<and>
      apple_issuer (trust (boot_state r)) = ''https://appleid.apple.com'' \<and>
      apple_audience (trust (boot_state r)) = ''com.rayeeev.IronServer'' \<and>
      from_sec1_bytes b (pinned_orch_key b) = Some (orch_manage_pubkey (trust (boot_state r))) \<and>
      (\<exists>jwks. jwks_from_slice b (pinned_jwks b) = Some jwks \<and>
         (\<forall>kid. hm_get (apple_jwt_keys (trust (boot_state r))) kid =
            map_of (rev (List.map_filter (usable_key (rsa_components b)) jwks)) kid)) \<and>
      (boot_port r = 443 \<or> (\<exists>s. IRON_INSTANCE_PORT b = Some s \<and> parse_u16 s = Some (boot_port r))) \<and>
      (\<forall>n < 2 ^ 16. IRON_INSTANCE_PORT b = Some (decimal n) \<longrightarrow> boot_port r = word_of_nat n)"
proof -
  from assms obtain kp cert where *: "generate_key b = Some kp" "self_signed b kp = Some cert"
    "load_manifest b = Return (cohort (boot_state r))" "make_anchors b = Return (trust (boot_state r))"
    "make_server_config (boot_tls b) (cohort (boot_state r)) cert (serialize_der kp) = Some (boot_config r)"
    "boot (boot_state r) = \<lparr>spki_sha256 = boot_sha256 b (subject_public_key_info kp)\<rparr>"
    "members (boot_state r) = default_inner" "boot_stdout r = boot_lines (spki_sha256 (boot (boot_state r))) (boot_port r)"
    "boot_port r = select_port (IRON_INSTANCE_PORT b)"
    by (rule main_boot_Return)
  note cfg = make_server_config_Some [OF *(5)]
  have man: "case IRON_MANIFEST_PATH b of None \<Rightarrow> cohort (boot_state r) = default_manifest
      | Some path \<Rightarrow> \<exists>raw. fs_read b path = Some raw \<and> manifest_from_slice b raw = Inr (cohort (boot_state r))"
    using *(3) by (auto simp: load_manifest_def from_bytes_def split: option.splits sum.splits)
  note anc = make_anchors_Return [OF *(4)]
  have port: "boot_port r = 443 \<or> (\<exists>s. IRON_INSTANCE_PORT b = Some s \<and> parse_u16 s = Some (boot_port r))"
    using *(9) by (auto simp: select_port_def split: option.splits)
  have num: "\<forall>n < 2 ^ 16. IRON_INSTANCE_PORT b = Some (decimal n) \<longrightarrow> boot_port r = word_of_nat n"
    using *(9) by (auto simp: select_port_def parse_decimal)
  show ?thesis
    by (intro exI [of _ kp] exI [of _ cert] conjI *(1,2) cfg(1,2,3) man anc port num *(7))
      (simp_all add: *(6,8) boot_lines_def to_hex_hex_encode)
qed

text \<open>A boot with no manifest file and port 8443.\<close>

definition demo_boot :: "(nat, nat, unit, unit, bytes) boot_libs" where
  "demo_boot = \<lparr>generate_key = Some \<lparr>subject_public_key_info = [1], serialize_der = [2]\<rparr>, certificate_params = True,
     self_signed = (\<lambda>_. Some [3]), boot_sha256 = (\<lambda>b. b), IRON_MANIFEST_PATH = None, fs_read = (\<lambda>_. None),
     manifest_from_slice = (\<lambda>_. Inl ()), pinned_jwks = [], jwks_from_slice = (\<lambda>_. Some []),
     rsa_components = (\<lambda>_ _. None), pinned_orch_key = [4], from_sec1_bytes = (\<lambda>_. Some 0),
     boot_tls = demo_tls, IRON_INSTANCE_PORT = Some ''8443''\<rparr>"

theorem boot_is_consistent_witness:
  "\<exists>r. main_boot demo_boot = Return r \<and> spki_sha256 (boot (boot_state r)) = [1] \<and>
     ver_manifest (cert_verifier (boot_config r)) = cohort (boot_state r) \<and> boot_port r = 8443"
proof -
  have port: "select_port (Some ''8443'') = 8443"
    by (simp add: select_port_def parse_u16_def is_digit_def digit_value_def)
  obtain r where r: "main_boot demo_boot = Return r" "boot_port r = 8443"
    by (simp add: main_boot_def demo_boot_def load_manifest_def make_anchors_def load_apple_jwt_keys_def
        make_server_config_def demo_tls_def port Let_def)
  show ?thesis
    using boot_is_consistent [OF r(1)] r by (auto simp: demo_boot_def)
qed

end
