(* ===== verification/Instance_Server.thy ===== *)
theory Instance_Server
  imports Instance_System Instance_Boot
begin

text \<open>
  The whole path of a request: a TLS connection accepted by \<^verbatim>\<open>MtlsAcceptor\<close> (\<^verbatim>\<open>src/src/mtls.rs\<close>), the
  client's point added to the request, the router of \<^verbatim>\<open>src/src/lib.rs\<close>, the handler. \<open>axum_lib\<close> stands
  for axum's extractors: \<open>None\<close> when axum rejects the request before the handler runs. A request that no
  route matches is answered by axum alone.

  Each served request is a sequence of steps of \<^verbatim>\<open>Instance_System\<close>, so the invariants hold of the
  served process; the connection gate adds that every key in the state is a well-formed point of
  the cohort, which bounds the memory the process uses.
\<close>

record http_message =
  msg_method :: http_method
  msg_path :: string
  msg_headers :: "string \<Rightarrow> bytes option"
  msg_query :: string
  msg_body :: bytes

record axum_lib =
  extract_nonce :: "string \<Rightarrow> string option option"
  extract_enroll :: "http_message \<Rightarrow> enroll_request option"
  extract_body :: "http_message \<Rightarrow> bytes option"
  extract_manage :: "http_message \<Rightarrow> manage_envelope option"

datatype served =
    Attestation_Reply "envelope response"
  | Enroll_Reply "string response outcome"
  | Chat_Reply chat_outcome
  | Manage_Reply "bool response"
  | No_Route
  | Rejected

text \<open>What varies from call to call: the clock and the random generator.\<close>

record call_env =
  call_now :: instant
  call_csprng :: "bytes option"

definition dispatch ::
  "('k, 'v, 's, 'c, 'p, 'f) instance_libs \<Rightarrow> http_lib \<Rightarrow> axum_lib \<Rightarrow> call_env \<Rightarrow>
   ('k, 'v, 'f) instance_state \<Rightarrow> http_message http_request \<Rightarrow> served \<times> ('k, 'v, 'f) instance_state" where
  "dispatch L H X c i req =
     (let msg = request req; client = ext_client_pubkey req in
      case route (msg_method msg) (msg_path msg) of
        None \<Rightarrow> (No_Route, i)
      | Some Attestation_Handler \<Rightarrow>
          (case extract_nonce X (msg_query msg) of None \<Rightarrow> (Rejected, i)
           | Some q \<Rightarrow>
               (let (r, st', env') = attestation_handler (lib_attest L) (call_now c) (app i) (attest_state i) client q
                in (Attestation_Reply r, i\<lparr>app := st', attest_state := env'\<rparr>)))
      | Some Enroll_Handler \<Rightarrow>
          (case extract_enroll X msg of None \<Rightarrow> (Rejected, i)
           | Some er \<Rightarrow>
               (let (out, st') = enroll_handler (lib_enroll L) (call_csprng c) (app i) client er
                in (Enroll_Reply out, i\<lparr>app := st'\<rparr>)))
      | Some Chat_Handler \<Rightarrow>
          (case extract_body X msg of None \<Rightarrow> (Rejected, i)
           | Some b \<Rightarrow> (Chat_Reply (chat_handler H (app i) (msg_headers msg) b), i))
      | Some Manage_Handler \<Rightarrow>
          (case extract_manage X msg of None \<Rightarrow> (Rejected, i)
           | Some env \<Rightarrow>
               (let (r, st') = manage_handler (lib_manage L) (lib_iter L) (app i) env
                in (Manage_Reply r, i\<lparr>app := st'\<rparr>))))"

text \<open>A message on an accepted connection.\<close>

definition serve ::
  "('k, 'v, 's, 'c, 'p, 'f) instance_libs \<Rightarrow> http_lib \<Rightarrow> axum_lib \<Rightarrow> call_env \<Rightarrow>
   ('k, 'v, 'f) instance_state \<Rightarrow> add_client_pubkey \<Rightarrow> http_message \<Rightarrow> served \<times> ('k, 'v, 'f) instance_state" where
  "serve L H X c i conn msg =
     add_client_pubkey_call conn (dispatch L H X c i) \<lparr>ext_client_pubkey = None, request = msg\<rparr>"

text \<open>
  The random bytes fill a \<^verbatim>\<open>[u8; 32]\<close> and are no live bearer's.
\<close>

definition call_ok :: "call_env \<Rightarrow> ('k, 'v) app_state \<Rightarrow> bool" where
  "call_ok c st \<longleftrightarrow> fresh_random (call_csprng c) st \<and> (\<forall>buf. call_csprng c = Some buf \<longrightarrow> length buf = 32)"

text \<open>
  A step of the serving process: a message served in one go over a connection that its TLS configuration
  accepted, or one of the two store accesses of /manage, between which other messages may be served. Each
  event carries the random bytes the message could draw.
\<close>

inductive network_event ::
  "('k, 'v, 's, 'c, 'p, 'f) instance_libs \<Rightarrow> http_lib \<Rightarrow> axum_lib \<Rightarrow> ('a, 'd, 'i) tls_lib \<Rightarrow> 'a server_config \<Rightarrow> bytes option \<Rightarrow>
   ('k, 'v, 'f) instance_state \<Rightarrow> ('k, 'v, 'f) instance_state \<Rightarrow> bool"
  for L H X T cfg where
  serve_message: "mtls_accept (x509 (lib_enroll L)) T cfg stream = Some conn \<Longrightarrow> call_ok c (app i) \<Longrightarrow>
    serve L H X c i conn msg = (out, j) \<Longrightarrow> network_event L H X T cfg (call_csprng c) i j"
| serve_manage_guard: "mtls_accept (x509 (lib_enroll L)) T cfg stream = Some conn \<Longrightarrow>
    route (msg_method msg) (msg_path msg) = Some Manage_Handler \<Longrightarrow> extract_manage X msg = Some env \<Longrightarrow>
    manage_authenticate (lib_manage L) (orch_manage_pubkey (trust (app i))) env = Inr a \<Longrightarrow>
    note_nonce (nonce a) (members (app i)) = (fresh, s') \<Longrightarrow>
    network_event L H X T cfg None i
      (i\<lparr>app := (app i)\<lparr>members := s'\<rparr>, pending := (if fresh then a # pending i else pending i)\<rparr>)"
| serve_manage_action: "pending i = before @ a # after \<Longrightarrow> manage_apply (lib_iter L) a (members (app i)) = (r, s') \<Longrightarrow>
    network_event L H X T cfg None i (i\<lparr>app := (app i)\<lparr>members := s'\<rparr>, pending := before @ after\<rparr>)"

definition network_step ::
  "('k, 'v, 's, 'c, 'p, 'f) instance_libs \<Rightarrow> http_lib \<Rightarrow> axum_lib \<Rightarrow> ('a, 'd, 'i) tls_lib \<Rightarrow> 'a server_config \<Rightarrow>
   ('k, 'v, 'f) instance_state \<Rightarrow> ('k, 'v, 'f) instance_state \<Rightarrow> bool" where
  "network_step L H X T cfg i j \<longleftrightarrow> (\<exists>drawn. network_event L H X T cfg drawn i j)"

lemmas network_stepI = network_step_def [THEN iffD2, OF exI]

subsection \<open>Served requests are steps of the instance\<close>

lemma manage_is_steps:
  assumes "manage_handler (lib_manage L) (lib_iter L) (app i) env = (r, st')"
  shows "(instance_step L)\<^sup>*\<^sup>* i (i\<lparr>app := st'\<rparr>)"
proof (cases "manage_authenticate (lib_manage L) (orch_manage_pubkey (trust (app i))) env")
  case (Inl r')
  then have "i\<lparr>app := st'\<rparr> = i" using assms by (simp add: manage_handler_def)
  then show ?thesis by simp
next
  case (Inr a)
  obtain fresh s1 where n: "note_nonce (nonce a) (members (app i)) = (fresh, s1)" by fastforce
  let ?mid = "i\<lparr>app := (app i)\<lparr>members := s1\<rparr>, pending := (if fresh then a # pending i else pending i)\<rparr>"
  have guard: "instance_step L i ?mid" using instance_step.manage_guard [OF Inr n] .
  show ?thesis
  proof (cases fresh)
    case False
    then have "?mid = i\<lparr>app := st'\<rparr>" using assms Inr n by (simp add: manage_handler_def)
    then show ?thesis using guard by auto
  next
    case True
    obtain r2 s2 where ap: "manage_apply (lib_iter L) a s1 = (r2, s2)" by fastforce
    have "instance_step L ?mid (?mid\<lparr>app := (app ?mid)\<lparr>members := s2\<rparr>, pending := [] @ pending i\<rparr>)"
      by (rule instance_step.manage_action [where a = a]) (use True ap in simp_all)
    moreover have "?mid\<lparr>app := (app ?mid)\<lparr>members := s2\<rparr>, pending := [] @ pending i\<rparr> = i\<lparr>app := st'\<rparr>"
      using assms Inr n True ap by (simp add: manage_handler_def)
    ultimately show ?thesis using guard by (metis converse_rtranclp_into_rtranclp r_into_rtranclp)
  qed
qed

lemma dispatch_is_steps:
  assumes "fresh_random (call_csprng c) (app i)" "dispatch L H X c i req = (out, j)"
  shows "(instance_step L)\<^sup>*\<^sup>* i j"
proof -
  have att: "(instance_step L)\<^sup>*\<^sup>* i (i\<lparr>app := st', attest_state := env'\<rparr>)"
    if "attestation_handler (lib_attest L) now (app i) (attest_state i) client q = (r, st', env')" for now client q r st' env'
    using instance_step.attestation [OF that] by blast
  have enr: "(instance_step L)\<^sup>*\<^sup>* i (i\<lparr>app := st'\<rparr>)"
    if "enroll_handler (lib_enroll L) (call_csprng c) (app i) client er = (o', st')" for client er o' st'
    using instance_step.enroll [OF that assms(1)] by blast
  show ?thesis
    using assms(2) manage_is_steps att enr
    by (auto simp: dispatch_def Let_def split: option.splits endpoint.splits prod.splits)
qed

lemma network_event_is_steps: "network_event L H X T cfg drawn i j \<Longrightarrow> (instance_step L)\<^sup>*\<^sup>* i j"
proof (induction rule: network_event.induct)
  case (serve_message stream conn c i msg out j)
  then show ?case by (auto simp: serve_def add_client_pubkey_call_def call_ok_def intro: dispatch_is_steps)
next
  case (serve_manage_guard stream conn msg env i a fresh s')
  then show ?case using instance_step.manage_guard by blast
next
  case (serve_manage_action i before a after r s')
  then show ?case using instance_step.manage_action by blast
qed

lemma network_step_is_steps: "network_step L H X T cfg i j \<Longrightarrow> (instance_step L)\<^sup>*\<^sup>* i j"
  using network_event_is_steps by (auto simp: network_step_def)

lemma reachable_rtranclp: "step\<^sup>*\<^sup>* s t \<Longrightarrow> reachable init step s \<Longrightarrow> reachable init step t"
  by (induction rule: rtranclp_induct) (auto intro: reachable.reachable_step)

lemma network_reachable_instance:
  "reachable (boot_instance st env) (network_step L H X T cfg) i \<Longrightarrow> reachable (boot_instance st env) (instance_step L) i"
proof (induction rule: reachable.induct)
  case (reachable_step s t)
  then show ?case using reachable_rtranclp [OF network_step_is_steps] by blast
qed (rule reachable.reachable_init)

subsection \<open>The shape of what is stored\<close>

text \<open>A key that the handshake lets through.\<close>

definition gated :: "manifest \<Rightarrow> pubkey \<Rightarrow> bool" where
  "gated m pk \<longleftrightarrow> x963_point pk \<and> contains_pubkey m pk"

text \<open>
  The types of \<^verbatim>\<open>src/src/state.rs\<close> read as a predicate: \<^verbatim>\<open>Pubkey\<close> is 65 bytes, \<^verbatim>\<open>MemberHash\<close> 32, a bearer the
  43 characters of 32 encoded bytes; and every key is one the handshake lets through.
\<close>

definition store_typed :: "manifest \<Rightarrow> inner \<Rightarrow> bool" where
  "store_typed m s \<longleftrightarrow>
     (\<forall>pk mem. hm_get (by_pubkey s) pk = Some mem \<longrightarrow>
        gated m pk \<and> length (stored_hash mem) = 32 \<and> list_all (\<lambda>t. length t = 43) (sessions mem)) \<and>
     (\<forall>pk b. hm_get (attest_buckets s) pk = Some b \<longrightarrow> gated m pk)"

lemma store_typed_frame:
  "by_pubkey s' = by_pubkey s \<Longrightarrow> attest_buckets s' = attest_buckets s \<Longrightarrow> store_typed m s' \<longleftrightarrow> store_typed m s"
  by (simp add: store_typed_def)

lemma store_typed_live: "store_typed m s \<Longrightarrow> list_all (\<lambda>t. length t = 43) (live_sessions s pk)"
  by (auto simp: store_typed_def live_sessions_def split: option.splits)

lemma list_all_drop: "list_all P xs \<Longrightarrow> list_all P (drop n xs)"
  by (metis append_take_drop_id list_all_append)

lemma store_typed_insert:
  assumes "store_typed m s" "gated m (client_pubkey e)" "length (member_hash e) = 32" "length (session_token e) = 43"
  shows "store_typed m (snd (member_insert e s))"
proof -
  have "list_all (\<lambda>t. length t = 43) (live_sessions (snd (member_insert e s)) (client_pubkey e))"
    using assms(4) store_typed_live [OF assms(1)] by (simp add: member_insert_live list_all_drop)
  then show ?thesis
    using assms by (auto simp: store_typed_def member_insert_member member_insert_frame)
qed

lemma store_typed_allow:
  assumes "store_typed m s" "gated m pk"
  shows "store_typed m (snd (allow_attestation now pk s))"
  using assms allow_attestation_frame(4) [where pk = pk and now = now and s = s]
  unfolding store_typed_def allow_attestation_frame(1) by metis

lemma store_typed_revoke:
  assumes "iteration_of iter" "store_wf s" "store_typed m s"
  shows "store_typed m (snd (revoke_by_member_hash iter h s))"
  using assms(1,2)
proof (cases rule: revoke_cases [where h = h])
  case none
  then show ?thesis using assms(3) by simp
next
  case (some pk mem)
  then show ?thesis using assms(3) by (auto simp: store_typed_def split: if_splits)
qed

lemma store_typed_manage:
  assumes "iteration_of iter" "store_wf s" "store_typed m s"
  shows "store_typed m (snd (manage_apply iter a s))"
  using store_typed_revoke [OF assms] assms(3)
  by (auto simp: manage_apply_def case_prod_unfold Let_def split: option.splits)

lemma store_typed_note: "store_typed m (snd (note_nonce n s)) \<longleftrightarrow> store_typed m s"
  by (rule store_typed_frame) simp_all

text \<open>SHA-256 digests have 32 bytes.\<close>

definition digest_32 :: "('k, 'c, 'p) enroll_libs \<Rightarrow> bool" where
  "digest_32 libs \<longleftrightarrow> (\<forall>b. length (sha256 libs b) = 32)"

lemma enroll_typed:
  assumes "ulower_not_hex (unicode_lower libs)" "digest_32 libs" "\<And>buf. csprng = Some buf \<Longrightarrow> length buf = 32"
    "store_typed m (members st)" "gated m pk" "enroll_handler libs csprng st (Some pk) req = (out, st')"
  shows "store_typed m (members st')"
  using assms(1)
proof (cases rule: enroll_cases [of libs "Some pk" st req csprng])
  case (1 pk' claims tx buf)
  then have "st' = st\<lparr>members := snd (member_insert (enroll_entry libs pk claims tx buf) (members st))\<rparr>"
    using assms(6) by simp
  moreover have "store_typed m (snd (member_insert (enroll_entry libs pk claims tx buf) (members st)))"
    using assms(2,3,4,5) 1(3)
    by (intro store_typed_insert) (simp_all add: enroll_entry_def member_hash_of_def digest_32_def length_b64url_nopad)
  ultimately show ?thesis by simp
qed (use assms in auto)

lemma attestation_typed:
  assumes "store_typed m (members st)" "gated m pk" "attestation_handler libs now st env (Some pk) q = (r, st', env')"
  shows "store_typed m (members st')"
  using assms store_typed_allow [OF assms(1,2)]
  by (auto simp: attestation_handler_def Let_def case_prod_unfold split: if_splits)

lemma manage_typed:
  assumes "iteration_of iter" "store_wf (members st)" "store_typed m (members st)" "manage_handler libs iter st env = (r, st')"
  shows "store_typed m (members st')"
proof (cases "manage_authenticate libs (orch_manage_pubkey (trust st)) env")
  case (Inl r')
  then show ?thesis using assms(3,4) by (simp add: manage_handler_def)
next
  case (Inr a)
  have "store_wf (snd (note_nonce (nonce a) (members st)))" using assms(2) by (simp add: note_nonce_wf)
  then show ?thesis
    using Inr assms(3,4) store_typed_manage [OF assms(1), of "snd (note_nonce (nonce a) (members st))" m a] store_typed_note
    by (auto simp: manage_handler_def case_prod_unfold Let_def split: if_splits)
qed

lemma dispatch_typed:
  assumes "libs_ok L" "digest_32 (lib_enroll L)" "call_ok c (app i)" "store_wf (members (app i))"
    "store_typed m (members (app i))" "ext_client_pubkey req = Some pk" "gated m pk" "dispatch L H X c i req = (out, j)"
  shows "store_typed m (members (app j))"
proof -
  have low: "ulower_not_hex (unicode_lower (lib_enroll L))" and it: "iteration_of (lib_iter L)"
    and len: "\<And>buf. call_csprng c = Some buf \<Longrightarrow> length buf = 32"
    using assms(1,3) by (simp_all add: libs_ok_def call_ok_def)
  show ?thesis
    using assms(8,5,6) enroll_typed [OF low assms(2) len assms(5,7)] attestation_typed [OF assms(5,7)]
      manage_typed [OF it assms(4,5)]
    by (auto simp: dispatch_def Let_def split: option.splits endpoint.splits prod.splits)
qed

text \<open>The invariant of the serving process.\<close>

definition server_inv :: "manifest \<Rightarrow> ('k, 'v, 'f) instance_state \<Rightarrow> bool" where
  "server_inv m i \<longleftrightarrow> instance_inv m i \<and> store_typed m (members (app i))"

lemma server_invD: "server_inv m i \<Longrightarrow> store_wf (members (app i))" "server_inv m i \<Longrightarrow> store_typed m (members (app i))"
  "server_inv m i \<Longrightarrow> members_listed m (members (app i))"
  by (simp_all add: server_inv_def instance_inv_def store_inv_def)

lemma instance_steps_inv:
  "(instance_step L)\<^sup>*\<^sup>* i j \<Longrightarrow> libs_ok L \<Longrightarrow> instance_inv m i \<Longrightarrow> instance_inv m j"
  by (induction rule: rtranclp_induct) (auto intro: instance_step_inv)

text \<open>A process that serves a configuration made for the manifest \<open>m\<close>, with libraries as documented.\<close>

definition serving ::
  "('k, 'v, 's, 'c, 'p, 'f) instance_libs \<Rightarrow> ('a, 'd, 'i) tls_lib \<Rightarrow> manifest \<Rightarrow> 'a server_config \<Rightarrow> bool" where
  "serving L T m cfg \<longleftrightarrow> libs_ok L \<and> digest_32 (lib_enroll L) \<and> mandatory_client_auth (x509 (lib_enroll L)) T \<and>
     (\<exists>cert key. make_server_config T m cert key = Some cfg)"

lemma network_event_typed:
  assumes "serving L T m cfg" "server_inv m i" "network_event L H X T cfg drawn i j"
  shows "store_typed m (members (app j))"
  using assms(3)
proof (cases rule: network_event.cases)
  case (serve_message stream conn c msg out)
  obtain pk where pk: "conn_pubkey conn = Some pk" "gated m pk"
    using accepted_has_member_key serve_message(2) assms(1) unfolding serving_def gated_def by metis
  then have run: "dispatch L H X c i \<lparr>ext_client_pubkey = Some pk, request = msg\<rparr> = (out, j)"
    using serve_message(4) by (simp add: serve_def add_client_pubkey_call_def)
  have libs: "libs_ok L" "digest_32 (lib_enroll L)" using assms(1) by (simp_all add: serving_def)
  show ?thesis
    by (rule dispatch_typed [OF libs serve_message(3) server_invD(1,2) [OF assms(2)] _ pk(2) run]) simp
next
  case (serve_manage_guard stream conn msg env a fresh s')
  then have "s' = snd (note_nonce (nonce a) (members (app i)))" by simp
  then show ?thesis using serve_manage_guard(2) server_invD(2) [OF assms(2)] by (simp add: store_typed_note)
next
  case (serve_manage_action before a after r s')
  then have "s' = snd (manage_apply (lib_iter L) a (members (app i)))" by simp
  then show ?thesis
    using serve_manage_action(2) assms(1) store_typed_manage server_invD [OF assms(2)] by (simp add: serving_def libs_ok_def)
qed

lemma network_step_typed:
  "serving L T m cfg \<Longrightarrow> server_inv m i \<Longrightarrow> network_step L H X T cfg i j \<Longrightarrow> store_typed m (members (app j))"
  using network_event_typed by (auto simp: network_step_def)

lemma network_step_inv:
  assumes "serving L T m cfg" "server_inv m i" "network_step L H X T cfg i j"
  shows "server_inv m j"
  using network_step_typed [OF assms] instance_steps_inv [OF network_step_is_steps [OF assms(3)]] assms(1,2)
  by (simp add: server_inv_def serving_def)

definition serving_step ::
  "('k, 'v, 's, 'c, 'p, 'f) instance_libs \<Rightarrow> http_lib \<Rightarrow> axum_lib \<Rightarrow> ('a, 'd, 'i) tls_lib \<Rightarrow> 'a server_config \<Rightarrow> manifest \<Rightarrow>
   ('k, 'v, 'f) instance_state \<Rightarrow> ('k, 'v, 'f) instance_state \<Rightarrow> bool" where
  "serving_step L H X T cfg m i j \<longleftrightarrow> serving L T m cfg \<and> network_step L H X T cfg i j"

lemma boot_server_inv: "server_inv (cohort st) (boot_instance st env)"
  using boot_instance_inv [of st env] default_inner_empty(2)
  by (simp add: server_inv_def store_typed_def boot_instance_def) (simp add: default_inner_def)

interpretation server: invariant_system "boot_instance st env" "serving_step L H X T cfg (cohort st)" "server_inv (cohort st)"
  for st env L H X T cfg
  by unfold_locales (auto simp: boot_server_inv serving_step_def intro: network_step_inv)

lemma booted_serving:
  assumes "libs_ok L" "digest_32 (lib_enroll L)" "mandatory_client_auth (x509 (lib_enroll L)) (boot_tls b)" "main_boot b = Return r"
  shows "serving L (boot_tls b) (cohort (boot_state r)) (boot_config r)"
  using main_boot_Return [OF assms(4)] assms(1,2,3) unfolding serving_def by metis

lemma reachable_server_inv:
  assumes "serving L T (cohort st) cfg" "reachable (boot_instance st env) (network_step L H X T cfg) i"
  shows "server_inv (cohort st) i"
  using server.inv_reachable
    reachable_mono [OF assms(2), of "serving_step L H X T cfg (cohort st)"] assms(1)
  by (simp add: serving_step_def)

text \<open>A chat message is answered by the chat handler and changes nothing.\<close>

lemma dispatch_chat:
  assumes "dispatch L H X c i req = (Chat_Reply out, j)"
  shows "j = i \<and> (\<exists>b. out = chat_handler H (app i) (msg_headers (request req)) b)"
proof (cases "route (msg_method (request req)) (msg_path (request req))")
  case (Some h)
  then show ?thesis
    using assms by (cases h) (simp_all add: dispatch_def case_prod_unfold Let_def split: option.splits, blast)
qed (use assms in \<open>simp add: dispatch_def\<close>)

lemma serve_chat:
  assumes "serve L H X c i conn msg = (Chat_Reply out, j)"
  shows "j = i \<and> (\<exists>b. out = chat_handler H (app i) (msg_headers msg) b)"
  using dispatch_chat [OF assms [unfolded serve_def add_client_pubkey_call_def]] by (simp split: option.splits)

subsection \<open>What the serving process guarantees\<close>

text \<open>
  C12: every state that a booted process reaches by serving messages over accepted connections has the shapes the
  source's types promise: each stored key is a 65-byte uncompressed point of the cohort, each member hash
  has 32 bytes, each live bearer 43 characters, and a bearer resolves exactly when it is live for its key.
\<close>

theorem server_state_typed:
  assumes "libs_ok L" "digest_32 (lib_enroll L)" "mandatory_client_auth (x509 (lib_enroll L)) (boot_tls b)" "main_boot b = Return r"
    and reach: "reachable (boot_instance (boot_state r) env) (network_step L H X (boot_tls b) (boot_config r)) i"
  shows "store_typed (cohort (boot_state r)) (members (app i)) \<and>
    (contains_token t (members (app i)) \<longleftrightarrow>
      (\<exists>e. get_by_token t (members (app i)) = Some e \<and> length t = 43 \<and> x963_point (client_pubkey e) \<and> length (member_hash e) = 32))"
proof -
  have inv: "server_inv (cohort (boot_state r)) i"
    using reachable_server_inv [OF booted_serving [OF assms(1-4)] reach] .
  have "length t = 43 \<and> x963_point (client_pubkey e) \<and> length (member_hash e) = 32"
    if "get_by_token t (members (app i)) = Some e" for e
  proof -
    have live: "t \<in> set (live_sessions (members (app i)) (client_pubkey e))"
      and mem: "\<exists>mem. hm_get (by_pubkey (members (app i))) (client_pubkey e) = Some mem \<and> member_hash e = stored_hash mem"
      using that unfolding get_by_token_iff [OF server_invD(1) [OF inv]] by blast+
    from live have "length t = 43" using store_typed_live [OF server_invD(2) [OF inv], of "client_pubkey e"] by (auto simp: list_all_iff)
    with mem show ?thesis using server_invD(2) [OF inv] by (auto simp: store_typed_def gated_def)
  qed
  then show ?thesis
    using server_invD(2) [OF inv] get_by_token_contains [OF server_invD(1) [OF inv], of t] by blast
qed

lemma card_manifest_keys:
  "finite {pk. contains_pubkey m pk}" "card {pk. contains_pubkey m pk} \<le> length (manifest_members m)"
proof -
  have sub: "{pk. contains_pubkey m pk} \<subseteq> (\<lambda>mm. the (hex_decode (pubkey mm))) ` set (manifest_members m)"
    by (auto simp: contains_pubkey_iff image_iff) (metis option.sel)
  then show fin: "finite {pk. contains_pubkey m pk}" by (rule finite_subset) simp
  have "card {pk. contains_pubkey m pk} \<le> card (set (manifest_members m))"
    using card_mono [OF _ sub] card_image_le [of "set (manifest_members m)" "\<lambda>mm. the (hex_decode (pubkey mm))"] by fastforce
  also have "\<dots> \<le> length (manifest_members m)" by (rule card_length)
  finally show "card {pk. contains_pubkey m pk} \<le> length (manifest_members m)" .
qed

lemma card_keys_le: "K \<subseteq> {pk. contains_pubkey m pk} \<Longrightarrow> finite K \<and> card K \<le> length (manifest_members m)"
  using card_manifest_keys [of m] card_mono finite_subset by (metis order_trans)

lemma card_tokens_le:
  assumes "store_wf s" "store_typed m s"
  shows "finite {t. contains_token t s} \<and> card {t. contains_token t s} \<le> DEVICE_CAP * length (manifest_members m)"
proof -
  let ?K = "{pk. live_sessions s pk \<noteq> []}"
  have "?K \<subseteq> {pk. contains_pubkey m pk}"
    using assms(2) by (auto simp: store_typed_def gated_def live_sessions_def split: option.splits)
  from card_keys_le [OF this] have K: "finite ?K" "card ?K \<le> length (manifest_members m)" by simp_all
  have tok: "{t. contains_token t s} = (\<Union>pk \<in> ?K. set (live_sessions s pk))"
    using contains_token_live [OF assms(1)] by force
  have "card (set (live_sessions s pk)) \<le> DEVICE_CAP" for pk
    using card_length [of "live_sessions s pk"] store_wfD(4) [OF assms(1), of pk] by linarith
  then have "card (\<Union>pk \<in> ?K. set (live_sessions s pk)) \<le> (\<Sum>pk \<in> ?K. DEVICE_CAP)"
    using card_UN_le [OF K(1), of "\<lambda>pk. set (live_sessions s pk)"] sum_mono by (metis (mono_tags, lifting) order_trans)
  also have "\<dots> \<le> DEVICE_CAP * length (manifest_members m)" using K(2) by simp
  finally show ?thesis unfolding tok using K(1) by simp
qed

text \<open>
  C15: the memory that members can make the process use is bounded by the cohort, as the comment on the rate limit
  in \<^verbatim>\<open>src/src/state.rs\<close> claims: in every reachable state there are at most as many rate-limit buckets, and at most as many stored
  members, as the manifest has lines, and at most \<open>DEVICE_CAP\<close> bearers for each.
\<close>

theorem server_memory_bounded:
  assumes "libs_ok L" "digest_32 (lib_enroll L)" "mandatory_client_auth (x509 (lib_enroll L)) (boot_tls b)" "main_boot b = Return r"
    and reach: "reachable (boot_instance (boot_state r) env) (network_step L H X (boot_tls b) (boot_config r)) i"
  shows "let n = length (manifest_members (cohort (boot_state r))); s = members (app i) in
    finite {pk. hm_contains (attest_buckets s) pk} \<and> card {pk. hm_contains (attest_buckets s) pk} \<le> n \<and>
    finite {pk. hm_contains (by_pubkey s) pk} \<and> card {pk. hm_contains (by_pubkey s) pk} \<le> n \<and>
    finite {t. contains_token t s} \<and> card {t. contains_token t s} \<le> DEVICE_CAP * n"
proof -
  let ?m = "cohort (boot_state r)"
  have inv: "server_inv ?m i"
    using reachable_server_inv [OF booted_serving [OF assms(1-4)] reach] .
  have "{pk. hm_contains (attest_buckets (members (app i))) pk} \<subseteq> {pk. contains_pubkey ?m pk}"
    "{pk. hm_contains (by_pubkey (members (app i))) pk} \<subseteq> {pk. contains_pubkey ?m pk}"
    using server_invD(2) [OF inv] by (auto simp: store_typed_def gated_def hm_contains_def)
  from this [THEN card_keys_le] show ?thesis
    using card_tokens_le [OF server_invD(1,2) [OF inv]] by (simp add: Let_def)
qed

text \<open>
  C5: the model backend only ever works for members. When serving a message forwards a request upstream, the message's
  bearer resolves, at that moment, to a (public key, member hash) pair of the manifest the process was booted with, the
  connection it came over was opened with a key of that manifest, and the relay it may start is for that bearer.
\<close>

theorem backend_works_for_members:
  assumes "libs_ok L" "digest_32 (lib_enroll L)" "mandatory_client_auth (x509 (lib_enroll L)) (boot_tls b)" "main_boot b = Return r"
    and reach: "reachable (boot_instance (boot_state r) env) (network_step L H X (boot_tls b) (boot_config r)) i"
    and conn: "mtls_accept (x509 (lib_enroll L)) (boot_tls b) (boot_config r) stream = Some conn"
    and run: "serve L H X c i conn msg = (Chat_Reply out, j)" "forwarded out = Some rq"
  shows "j = i \<and> (\<exists>pk t e. conn_pubkey conn = Some pk \<and> contains_pubkey (cohort (boot_state r)) pk \<and>
    bearer H (msg_headers msg) = Some t \<and> get_by_token t (members (app i)) = Some e \<and>
    (client_pubkey e, member_hash e) \<in> manifest_pairs (cohort (boot_state r)) \<and> relay_for out \<in> {None, Some t})"
proof -
  let ?m = "cohort (boot_state r)"
  note srv = booted_serving [OF assms(1-4)]
  have inv: "server_inv ?m i" using reachable_server_inv [OF srv reach] .
  obtain pk where pk: "conn_pubkey conn = Some pk" "contains_pubkey ?m pk"
    using accepted_has_member_key [OF assms(3) _ conn] srv unfolding serving_def by metis
  obtain b' where chat: "out = chat_handler H (app i) (msg_headers msg) b'" "j = i"
    using serve_chat [OF run(1)] by blast
  then obtain t where t: "bearer H (msg_headers msg) = Some t" "contains_token t (members (app i))"
    "relay_for out \<in> {None, Some t}"
    using run(2) by (auto simp: chat_handler_def reject_def split: option.splits if_splits)
  then obtain e where e: "get_by_token t (members (app i)) = Some e"
    using get_by_token_contains [OF server_invD(1) [OF inv]] by blast
  then have "(client_pubkey e, member_hash e) \<in> manifest_pairs ?m"
    using server_invD(3) [OF inv] unfolding get_by_token_iff [OF server_invD(1) [OF inv]] by (auto simp: members_listed_def)
  with pk t e chat(2) show ?thesis by blast
qed

subsection \<open>A process that boots, enrols a member and serves a chat request\<close>

text \<open>
  Certificates are their own keys, as in \<open>raw_x509\<close>, and sign each other; the hash is constant; the cohort is one member.
\<close>

definition srv_x509 :: "(bytes, bytes) x509_lib" where
  "srv_x509 = \<lparr>from_der = Some, public_key = (\<lambda>c. c), subject_public_key_data = (\<lambda>p. p),
     verify_signature = (\<lambda>_ _. True), validity_is_valid = (\<lambda>_. True),
     cert_basic_constraints = (\<lambda>_. Inr (Some \<lparr>ca = True, path_len_constraint = None\<rparr>)), cert_key_usage = (\<lambda>_. Inr None)\<rparr>"

definition srv_tx :: storekit_payload where
  "srv_tx = demo_tx\<lparr>app_account_token :=
     Some (hex_encode (uuid_v5_bytes APPACCOUNT_NAMESPACE (as_bytes (sub demo_claims))))\<rparr>"

definition srv_action :: manage_action where
  "srv_action = \<lparr>action = ''revoke'', nonce = ''n1'', action_member_hash = Some (hex_encode APPLE_ROOT_CA_G3_SHA256)\<rparr>"

definition srv_libs :: "(nat, nat, bytes, bytes, bytes, string set) instance_libs" where
  "srv_libs = \<lparr>lib_enroll = \<lparr>jwt_apple = demo_apple_lib,
       jwt_storekit = demo_storekit_lib\<lparr>decode := (\<lambda>_ _ _. Some srv_tx)\<rparr>, x509 = srv_x509,
       sha256 = (\<lambda>_. APPLE_ROOT_CA_G3_SHA256), from_ec_der = (\<lambda>_. 2), unicode_lower = (\<lambda>_. [0x6b])\<rparr>,
     lib_manage = demo_manage_libs\<lparr>action_from_slice := (\<lambda>_. Some srv_action)\<rparr>, lib_attest = lib_attest demo_instance_libs, lib_iter = (\<lambda>m. m)\<rparr>"

definition srv_boot :: "(nat, nat, unit, unit, bytes) boot_libs" where
  "srv_boot = demo_boot\<lparr>IRON_MANIFEST_PATH := Some ''m'', fs_read := (\<lambda>_. Some []),
     manifest_from_slice := (\<lambda>_. Inr \<lparr>cohort_id = ''c'', manifest_members =
       [\<lparr>pubkey = hex_encode demo_point, hash = hex_encode APPLE_ROOT_CA_G3_SHA256\<rparr>]\<rparr>),
     jwks_from_slice := (\<lambda>_. Some [\<lparr>jwk_kid = ''K1'', jwk_n = [], jwk_e = [], jwk_kty = Some ''RSA'', jwk_use_field = None\<rparr>]),
     rsa_components := (\<lambda>_ _. Some 1)\<rparr>"

definition srv_token :: string where "srv_token = b64url_nopad (replicate 32 7)"

definition srv_http :: http_lib where
  "srv_http = \<lparr>header_to_str = (\<lambda>_. Some (''Bearer '' @ srv_token)), request_build = Some, send_request = (\<lambda>_. Some 200),
     is_success = (\<lambda>_. True), status_from_u16 = (\<lambda>_. None), response_build = True, IRON_VLLM_URL = None\<rparr>"

definition srv_axum :: axum_lib where
  "srv_axum = \<lparr>extract_nonce = (\<lambda>_. None), extract_enroll = (\<lambda>_. Some demo_request),
     extract_body = (\<lambda>msg. Some (msg_body msg)), extract_manage = (\<lambda>_. Some demo_envelope)\<rparr>"

definition srv_call :: call_env where "srv_call = \<lparr>call_now = 0, call_csprng = Some (replicate 32 7)\<rparr>"

definition post :: "string \<Rightarrow> http_message" where
  "post path = \<lparr>msg_method = POST, msg_path = path, msg_headers = (\<lambda>_. Some []), msg_query = [], msg_body = [1]\<rparr>"

definition srv_conn :: add_client_pubkey where "srv_conn = \<lparr>conn_pubkey = Some demo_point\<rparr>"

definition srv_booted :: "(nat, nat, unit) booted" where
  "srv_booted = (case main_boot srv_boot of Return r \<Rightarrow> r)"

definition srv_start :: "(nat, nat, string set) instance_state" where
  "srv_start = boot_instance (boot_state srv_booted) \<lparr>SEQ = 0, files = {}\<rparr>"

definition srv_enrolled :: "(nat, nat, string set) instance_state" where
  "srv_enrolled = snd (serve srv_libs srv_http srv_axum srv_call srv_start srv_conn (post ''/enroll''))"

lemma srv_main_boot: "\<exists>r. main_boot srv_boot = Return r"
  by (simp add: main_boot_def srv_boot_def demo_boot_def load_manifest_def from_bytes_def make_anchors_def load_apple_jwt_keys_def
      make_server_config_def demo_tls_def Let_def)

lemma srv_boots: "main_boot srv_boot = Return srv_booted"
  using srv_main_boot by (auto simp: srv_booted_def)

lemma srv_auth: "mandatory_client_auth (x509 (lib_enroll srv_libs)) (boot_tls srv_boot)"
proof -
  have "client_point_from_cert srv_x509 = client_point_from_cert raw_x509"
    by (auto simp: fun_eq_iff client_point_from_cert_def srv_x509_def raw_x509_def)
  then have "mandatory_client_auth srv_x509 demo_tls"
    using demo_tls_auth by (simp add: mandatory_client_auth_def verify_client_cert_def)
  then show ?thesis by (simp add: srv_libs_def srv_boot_def demo_boot_def)
qed

lemma srv_libs_ok: "libs_ok srv_libs" "digest_32 (lib_enroll srv_libs)"
  using iteration_id
  by (simp_all add: libs_ok_def digest_32_def srv_libs_def ulower_not_hex_def hex_val_def APPLE_ROOT_CA_G3_SHA256_def)

lemma srv_state:
  "cohort (boot_state srv_booted) = \<lparr>cohort_id = ''c'', manifest_members =
     [\<lparr>pubkey = hex_encode demo_point, hash = hex_encode APPLE_ROOT_CA_G3_SHA256\<rparr>]\<rparr>"
  "trust (boot_state srv_booted) = \<lparr>apple_jwt_keys = [(''K1'', 1)], apple_issuer = APPLE_ISSUER, apple_audience = APPLE_AUDIENCE,
     storekit_bundle_id = APPLE_AUDIENCE, storekit_root_sha256 = APPLE_ROOT_CA_G3_SHA256,
     appaccount_namespace = APPACCOUNT_NAMESPACE, orch_manage_pubkey = 0\<rparr>"
  "ver_manifest (cert_verifier (boot_config srv_booted)) = cohort (boot_state srv_booted)"
  by (simp_all add: srv_booted_def main_boot_def srv_boot_def demo_boot_def load_manifest_def from_bytes_def make_anchors_def
      load_apple_jwt_keys_def make_server_config_def demo_tls_def Let_def hm_insert_def hm_empty_def)

lemma srv_accepts: "mtls_accept (x509 (lib_enroll srv_libs)) (boot_tls srv_boot) (boot_config srv_booted) demo_point = Some srv_conn"
proof -
  have "client_point_from_cert raw_x509 demo_point = Some demo_point" "client_point_from_cert srv_x509 demo_point = Some demo_point"
    by (simp_all add: client_point_from_cert_def raw_x509_def srv_x509_def demo_point_def)
  moreover have "contains_pubkey (cohort (boot_state srv_booted)) demo_point"
    by (simp add: contains_pubkey_iff srv_state(1) hex_decode_encode)
  ultimately show ?thesis
    by (simp add: mtls_accept_def srv_boot_def demo_boot_def demo_tls_def verify_client_cert_def srv_state(3) srv_libs_def srv_conn_def)
qed

lemma srv_start_app: "app srv_start = boot_state srv_booted" "members (app srv_start) = default_inner"
proof -
  have "members (boot_state srv_booted) = default_inner"
    by (rule main_boot_Return [OF srv_boots])
  then show "app srv_start = boot_state srv_booted" "members (app srv_start) = default_inner"
    by (simp_all add: srv_start_def boot_instance_def)
qed

lemma srv_policy: "enroll_policy (lib_enroll srv_libs) (app srv_start) demo_point demo_request demo_claims srv_tx"
proof -
  have b64: "b64_decode_any ''QQ'' = Some [0x41]" "b64_decode_any ''QUE'' = Some [0x41, 0x41]" by code_simp+
  have store: "verify_storekit_jws (demo_storekit_lib\<lparr>decode := (\<lambda>_ _ _. Some srv_tx)\<rparr>) srv_x509 (\<lambda>_. APPLE_ROOT_CA_G3_SHA256)
      (\<lambda>_. 2) ''jws'' APPLE_ROOT_CA_G3_SHA256 APPLE_AUDIENCE = Return (Some srv_tx)"
    by (simp add: verify_storekit_jws_def demo_storekit_lib_def b64 srv_x509_def storekit_validation_def srv_tx_def demo_tx_def)
  have pair: "(demo_point, APPLE_ROOT_CA_G3_SHA256) \<in> manifest_pairs (cohort (boot_state srv_booted))"
    by (simp add: srv_state(1) manifest_pairs_def hex_decode_encode)
  have tok: "app_account_token srv_tx = Some (hex_encode (uuid_v5_bytes APPACCOUNT_NAMESPACE (as_bytes (sub demo_claims))))"
    by (simp add: srv_tx_def)
  show ?thesis
    unfolding enroll_policy_def tok using store pair demo_apple
    by (simp add: srv_start_app srv_state(2) srv_libs_def demo_request_def member_hash_of_def hex_encode_no_hyphen hex_decode_encode)
qed

lemma srv_call_ok: "call_ok srv_call (app srv_start)"
  by (simp add: call_ok_def fresh_random_def srv_call_def srv_start_app(2) default_inner_empty)

lemma srv_reachable:
  "reachable srv_start (network_step srv_libs srv_http srv_axum (boot_tls srv_boot) (boot_config srv_booted)) srv_enrolled"
proof (rule reachable.reachable_step [OF reachable.reachable_init])
  show "network_step srv_libs srv_http srv_axum (boot_tls srv_boot) (boot_config srv_booted) srv_start srv_enrolled"
    by (rule network_stepI, rule network_event.serve_message [OF srv_accepts srv_call_ok]) (simp add: srv_enrolled_def prod_eq_iff)
qed

lemma srv_enrolled_app:
  obtains e where "app srv_enrolled = (app srv_start)\<lparr>members := snd (member_insert e default_inner)\<rparr>" "session_token e = srv_token"
proof -
  have low: "ulower_not_hex (unicode_lower (lib_enroll srv_libs))" using srv_libs_ok(1) by (simp add: libs_ok_def)
  obtain e where run: "snd (enroll_handler (lib_enroll srv_libs) (Some (replicate 32 7)) (app srv_start) (Some demo_point) demo_request)
      = (app srv_start)\<lparr>members := snd (member_insert e (members (app srv_start)))\<rparr>" "session_token e = srv_token"
    by (rule enroll_cases [OF low, of "Some demo_point" "app srv_start" demo_request "Some (replicate 32 7)"])
      (use srv_policy in \<open>auto simp: enroll_entry_def srv_token_def\<close>)
  have "app srv_enrolled =
      snd (enroll_handler (lib_enroll srv_libs) (Some (replicate 32 7)) (app srv_start) (Some demo_point) demo_request)"
    by (simp add: srv_enrolled_def serve_def add_client_pubkey_call_def srv_conn_def dispatch_def route_def build_router_def post_def
        srv_axum_def srv_call_def case_prod_unfold Let_def)
  with run show thesis using that srv_start_app(2) by simp
qed

lemma srv_enrolled_token: "contains_token srv_token (members (app srv_enrolled))" "seen_nonces (members (app srv_enrolled)) = {}"
  by (rule srv_enrolled_app; simp add: contains_token_def hm_contains_def member_insert_tokens member_insert_frame default_inner_empty)+

lemmas srv_hyps = srv_libs_ok srv_auth srv_boots srv_reachable [unfolded srv_start_def]

theorem server_state_typed_witness:
  "\<exists>e. get_by_token srv_token (members (app srv_enrolled)) = Some e \<and> length srv_token = 43 \<and>
     x963_point (client_pubkey e) \<and> length (member_hash e) = 32"
  using server_state_typed [OF srv_hyps, of srv_token] srv_enrolled_token(1) by blast

theorem server_memory_bounded_witness:
  "contains_token srv_token (members (app srv_enrolled)) \<and> card {t. contains_token t (members (app srv_enrolled))} \<le> 3"
  using server_memory_bounded [OF srv_hyps] srv_enrolled_token(1) by (simp add: Let_def srv_state(1) DEVICE_CAP_def)

theorem backend_works_for_members_witness:
  "\<exists>t e. bearer srv_http (\<lambda>_. Some []) = Some t \<and> get_by_token t (members (app srv_enrolled)) = Some e \<and>
     (client_pubkey e, member_hash e) \<in> manifest_pairs (cohort (boot_state srv_booted))"
proof -
  have bear: "bearer srv_http (\<lambda>_. Some []) = Some srv_token"
    by (simp add: bearer_def srv_http_def strip_prefix_def)
  obtain out where out: "serve srv_libs srv_http srv_axum srv_call srv_enrolled srv_conn (post ''/v1/chat/completions'')
      = (Chat_Reply out, srv_enrolled)" "out = chat_handler srv_http (app srv_enrolled) (\<lambda>_. Some []) [1]"
    by (simp add: serve_def add_client_pubkey_call_def srv_conn_def dispatch_def route_def build_router_def post_def srv_axum_def)
  have "forwarded out = Some (chat_request srv_http [1])"
    unfolding out(2) chat_handler_def bear using srv_enrolled_token(1) by (simp add: srv_http_def)
  from backend_works_for_members [OF srv_hyps srv_accepts out(1) this] show ?thesis by (auto simp: post_def)
qed

end
