(* ===== verification/Chat_Stream.thy ===== *)
theory Chat_Stream
  imports Chat
begin

text \<open>
  The relay task of \<^verbatim>\<open>src/src/chat.rs\<close> with its bounded channel. The task, the model backend, the client that
  reads the response body, and the requests that change the store run concurrently; \<open>stream_step\<close> is one
  atomic action of one of them. The task awaits a frame, checks the bearer, and then awaits room
  in the channel: the check and the delivery are separate steps, and frames wait in the channel
  in between. \<^verbatim>\<open>body.frame().await\<close> waits as long as no frame has arrived and the backend has not ended its
  response (\<open>upstream_open\<close>). \<^verbatim>\<open>tokio\<close>'s channel is the queue \<open>chan\<close>: a send waits while it is full and fails
  once the receiver is gone; dropping the receiver drops what is queued.

  \<open>arrived\<close>, \<open>sent\<close> and \<open>checked\<close> are history variables: the frames the backend has sent so far (\<open>backend\<close> holds
  those that the task has not read yet), the frames handed to the channel, and the events as the
  sequential \<open>relay\<close> sees them.
\<close>

definition CHANNEL_CAPACITY :: nat where "CHANNEL_CAPACITY = 16"

datatype relay_task =
    Awaiting_Frame
  | Sending bytes inner
  | Sending_Revoked bytes inner
  | Finished relay_end

record stream =
  backend :: "upstream_frame list"
  upstream_open :: bool
  relay_task :: relay_task
  chan :: "bytes list"
  receiver_open :: bool
  delivered :: "bytes list"
  shared_store :: inner
  arrived :: "upstream_frame list"
  sent :: "bytes list"
  checked :: "relay_event list"

text \<open>The response's head has come; no frame of its body has arrived yet.\<close>

definition open_stream :: "inner \<Rightarrow> stream" where
  "open_stream s =
     \<lparr>backend = [], upstream_open = True, relay_task = Awaiting_Frame, chan = [], receiver_open = True, delivered = [],
      shared_store = s, arrived = [], sent = [], checked = []\<rparr>"

definition note_event :: "upstream_frame \<Rightarrow> inner \<Rightarrow> bool \<Rightarrow> stream \<Rightarrow> stream" where
  "note_event f s listens st =
     st\<lparr>checked := checked st @ [\<lparr>frame = f, store_at_check = s, client_listens = listens\<rparr>]\<rparr>"

text \<open>The steps of the task. It has none while it awaits a frame that has not arrived, or room in a full channel.\<close>

inductive task_step :: "string \<Rightarrow> stream \<Rightarrow> stream \<Rightarrow> bool" for token where
  upstream_done: "relay_task st = Awaiting_Frame \<Longrightarrow> backend st = [] \<Longrightarrow> \<not> upstream_open st \<Longrightarrow>
    task_step token st (st\<lparr>relay_task := Finished Upstream_Done\<rparr>)"
| upstream_failed: "relay_task st = Awaiting_Frame \<Longrightarrow> backend st = Frame_Error # rest \<Longrightarrow>
    task_step token st (note_event Frame_Error (shared_store st) True
      (st\<lparr>relay_task := Finished Upstream_Failed, backend := rest\<rparr>))"
| skip_frame: "relay_task st = Awaiting_Frame \<Longrightarrow> backend st = Not_Data # rest \<Longrightarrow>
    task_step token st (note_event Not_Data (shared_store st) True (st\<lparr>backend := rest\<rparr>))"
| check_ok: "relay_task st = Awaiting_Frame \<Longrightarrow> backend st = Data d # rest \<Longrightarrow>
    contains_token token (shared_store st) \<Longrightarrow>
    task_step token st (st\<lparr>relay_task := Sending d (shared_store st), backend := rest\<rparr>)"
| check_failed: "relay_task st = Awaiting_Frame \<Longrightarrow> backend st = Data d # rest \<Longrightarrow>
    \<not> contains_token token (shared_store st) \<Longrightarrow>
    task_step token st (st\<lparr>relay_task := Sending_Revoked d (shared_store st), backend := rest\<rparr>)"
| send_data: "relay_task st = Sending d s \<Longrightarrow> receiver_open st \<Longrightarrow> length (chan st) < CHANNEL_CAPACITY \<Longrightarrow>
    task_step token st (note_event (Data d) s True
      (st\<lparr>relay_task := Awaiting_Frame, chan := chan st @ [d], sent := sent st @ [d]\<rparr>))"
| client_gone: "relay_task st = Sending d s \<Longrightarrow> \<not> receiver_open st \<Longrightarrow>
    task_step token st (note_event (Data d) s False (st\<lparr>relay_task := Finished Client_Gone\<rparr>))"
| send_revoked: "relay_task st = Sending_Revoked d s \<Longrightarrow> receiver_open st \<Longrightarrow> length (chan st) < CHANNEL_CAPACITY \<Longrightarrow>
    task_step token st (note_event (Data d) s True
      (st\<lparr>relay_task := Finished Cut, chan := chan st @ [REVOKED_FRAME], sent := sent st @ [REVOKED_FRAME]\<rparr>))"
| revoked_unheard: "relay_task st = Sending_Revoked d s \<Longrightarrow> \<not> receiver_open st \<Longrightarrow>
    task_step token st (note_event (Data d) s False (st\<lparr>relay_task := Finished Cut\<rparr>))"

text \<open>The steps of the backend: a frame (or a transport error) arrives, or the response ends.\<close>

inductive backend_step :: "stream \<Rightarrow> stream \<Rightarrow> bool" where
  frame_arrives: "upstream_open st \<Longrightarrow>
    backend_step st (st\<lparr>backend := backend st @ [f], arrived := arrived st @ [f]\<rparr>)"
| response_ends: "upstream_open st \<Longrightarrow> backend_step st (st\<lparr>upstream_open := False\<rparr>)"

text \<open>The steps of the client.\<close>

inductive client_step :: "stream \<Rightarrow> stream \<Rightarrow> bool" where
  take_frame: "receiver_open st \<Longrightarrow> chan st = x # xs \<Longrightarrow>
    client_step st (st\<lparr>chan := xs, delivered := delivered st @ [x]\<rparr>)"
| hang_up: "client_step st (st\<lparr>receiver_open := False, chan := []\<rparr>)"

text \<open>
  All steps. \<open>ops\<close> restricts the store calls of the other requests; the label tells the task's steps from the others.
\<close>

datatype actor = Task | Backend | Client | Others

inductive stream_step ::
  "(pubkey, member) iteration \<Rightarrow> (store_op \<Rightarrow> bool) \<Rightarrow> string \<Rightarrow> stream \<Rightarrow> actor \<Rightarrow> stream \<Rightarrow> bool"
  for iter ops token where
  task: "task_step token st st' \<Longrightarrow> stream_step iter ops token st Task st'"
| backend: "backend_step st st' \<Longrightarrow> stream_step iter ops token st Backend st'"
| client: "client_step st st' \<Longrightarrow> stream_step iter ops token st Client st'"
| others: "store_allowed iter (shared_store st) op \<Longrightarrow> ops op \<Longrightarrow>
    stream_step iter ops token st Others (st\<lparr>shared_store := store_exec iter op (shared_store st)\<rparr>)"

inductive stream_run ::
  "(pubkey, member) iteration \<Rightarrow> (store_op \<Rightarrow> bool) \<Rightarrow> string \<Rightarrow> stream \<Rightarrow> actor list \<Rightarrow> stream \<Rightarrow> bool"
  for iter ops token where
  run_nil: "stream_run iter ops token st [] st"
| run_snoc: "stream_run iter ops token st as st' \<Longrightarrow> stream_step iter ops token st' a st'' \<Longrightarrow>
    stream_run iter ops token st (as @ [a]) st''"

lemma note_event_sel [simp]:
  "backend (note_event f s l st) = backend st" "upstream_open (note_event f s l st) = upstream_open st"
  "arrived (note_event f s l st) = arrived st" "relay_task (note_event f s l st) = relay_task st"
  "chan (note_event f s l st) = chan st" "receiver_open (note_event f s l st) = receiver_open st"
  "delivered (note_event f s l st) = delivered st" "shared_store (note_event f s l st) = shared_store st"
  "sent (note_event f s l st) = sent st"
  "checked (note_event f s l st) = checked st @ [\<lparr>frame = f, store_at_check = s, client_listens = l\<rparr>]"
  by (simp_all add: note_event_def)

subsection \<open>The channel\<close>

definition chan_inv :: "stream \<Rightarrow> bool" where
  "chan_inv st \<longleftrightarrow> length (chan st) \<le> CHANNEL_CAPACITY \<and> (\<exists>lost. sent st = delivered st @ chan st @ lost) \<and>
     (receiver_open st \<longrightarrow> sent st = delivered st @ chan st) \<and> (receiver_open st \<or> chan st = [])"

lemma chan_inv_step: "stream_step iter ops token st a st' \<Longrightarrow> chan_inv st \<Longrightarrow> chan_inv st'"
proof (induction rule: stream_step.induct)
  case (task st st')
  then show ?case by (cases rule: task_step.cases) (auto simp: chan_inv_def CHANNEL_CAPACITY_def)
next
  case (backend st st')
  then show ?case by (cases rule: backend_step.cases) (auto simp: chan_inv_def)
next
  case (client st st')
  then show ?case by (cases rule: client_step.cases) (auto simp: chan_inv_def)
next
  case (others st op)
  then show ?case by (simp add: chan_inv_def)
qed

lemma chan_inv_run: "stream_run iter ops token st as st' \<Longrightarrow> chan_inv st \<Longrightarrow> chan_inv st'"
  by (induction rule: stream_run.induct) (auto intro: chan_inv_step)

lemma chan_inv_open: "chan_inv (open_stream s)"
  by (simp add: chan_inv_def open_stream_def)

subsection \<open>The task computes the sequential relay\<close>

lemma relay_append:
  "snd (relay token xs) = Upstream_Done \<Longrightarrow>
   relay token (xs @ ys) = (fst (relay token xs) @ fst (relay token ys), snd (relay token ys))"
proof (induction xs)
  case (Cons ev xs)
  then show ?case by (auto simp: case_prod_unfold Let_def split: upstream_frame.splits if_splits)
qed simp

definition frame_in_hand :: "stream \<Rightarrow> upstream_frame list" where
  "frame_in_hand st = (case relay_task st of Sending d _ \<Rightarrow> [Data d] | Sending_Revoked d _ \<Rightarrow> [Data d] | _ \<Rightarrow> [])"

text \<open>
  The frames are consumed in order, and what was sent is what the sequential relay sends on the events so far.
\<close>

definition task_inv :: "string \<Rightarrow> stream \<Rightarrow> bool" where
  "task_inv token st \<longleftrightarrow>
     map frame (checked st) @ frame_in_hand st @ backend st = arrived st \<and>
     (case relay_task st of
        Awaiting_Frame \<Rightarrow> relay token (checked st) = (sent st, Upstream_Done)
      | Sending _ s \<Rightarrow> relay token (checked st) = (sent st, Upstream_Done) \<and> contains_token token s
      | Sending_Revoked _ s \<Rightarrow> relay token (checked st) = (sent st, Upstream_Done) \<and> \<not> contains_token token s
      | Finished why \<Rightarrow> relay token (checked st) = (sent st, why))"

lemma task_inv_task_step: "task_step token st st' \<Longrightarrow> task_inv token st \<Longrightarrow> task_inv token st'"
  by (induction rule: task_step.induct) (auto simp: task_inv_def frame_in_hand_def relay_append)

lemma task_inv_frame:
  assumes "relay_task st' = relay_task st" "checked st' = checked st" "sent st' = sent st"
    "backend st' = backend st" "arrived st' = arrived st"
  shows "task_inv token st' \<longleftrightarrow> task_inv token st"
  unfolding task_inv_def frame_in_hand_def assms ..

lemma task_inv_step: "stream_step iter ops token st a st' \<Longrightarrow> task_inv token st \<Longrightarrow> task_inv token st'"
proof (induction rule: stream_step.induct)
  case (task st st')
  then show ?case by (rule task_inv_task_step)
next
  case (backend st st')
  then show ?case
    by (cases rule: backend_step.cases) (auto simp: task_inv_def frame_in_hand_def split: relay_task.splits)
next
  case (client st st')
  have "relay_task st' = relay_task st \<and> checked st' = checked st \<and> sent st' = sent st \<and>
      backend st' = backend st \<and> arrived st' = arrived st"
    using client.hyps by (cases rule: client_step.cases) auto
  then show ?case using client.prems task_inv_frame by blast
next
  case (others st op)
  then show ?case using task_inv_frame [of "st\<lparr>shared_store := store_exec iter op (shared_store st)\<rparr>" st] by simp
qed

lemma task_inv_run: "stream_run iter ops token st as st' \<Longrightarrow> task_inv token st \<Longrightarrow> task_inv token st'"
  by (induction rule: stream_run.induct) (auto intro: task_inv_step)

lemma task_inv_open: "task_inv token (open_stream s)"
  by (simp add: task_inv_def open_stream_def frame_in_hand_def)

subsection \<open>Progress\<close>

fun task_weight :: "relay_task \<Rightarrow> nat" where
  "task_weight Awaiting_Frame = 1"
| "task_weight (Sending _ _) = 2"
| "task_weight (Sending_Revoked _ _) = 2"
| "task_weight (Finished _) = 0"

definition work_left :: "stream \<Rightarrow> nat" where
  "work_left st = 2 * length (backend st) + task_weight (relay_task st)"

text \<open>A step of the task uses up work; only an arriving frame brings new work, two steps of it.\<close>

lemma task_step_work: "task_step token st st' \<Longrightarrow> work_left st' < work_left st \<and> arrived st' = arrived st"
  by (induction rule: task_step.induct) (auto simp: work_left_def)

lemma stream_step_work:
  "stream_step iter ops token st a st' \<Longrightarrow>
   work_left st' + (if a = Task then 1 else 0) + 2 * length (arrived st) \<le> work_left st + 2 * length (arrived st')"
proof (induction rule: stream_step.induct)
  case (task st st')
  then show ?case using task_step_work by fastforce
next
  case (backend st st')
  then show ?case by (cases rule: backend_step.cases) (auto simp: work_left_def)
next
  case (client st st')
  then show ?case by (cases rule: client_step.cases) (auto simp: work_left_def)
next
  case (others st op)
  then show ?case by (simp add: work_left_def)
qed

lemma stream_run_work:
  "stream_run iter ops token st as st' \<Longrightarrow>
   work_left st' + count_list as Task + 2 * length (arrived st) \<le> work_left st + 2 * length (arrived st')"
proof (induction rule: stream_run.induct)
  case (run_snoc st as st' a st'')
  then show ?case using stream_step_work [OF run_snoc.hyps(2)] by (auto split: if_splits)
qed simp

text \<open>The two places at which the task waits.\<close>

definition waits_for_backend :: "stream \<Rightarrow> bool" where
  "waits_for_backend st \<longleftrightarrow> relay_task st = Awaiting_Frame \<and> backend st = [] \<and> upstream_open st"

definition waits_for_client :: "stream \<Rightarrow> bool" where
  "waits_for_client st \<longleftrightarrow>
     (\<exists>d s. relay_task st = Sending d s \<or> relay_task st = Sending_Revoked d s) \<and>
     receiver_open st \<and> length (chan st) = CHANNEL_CAPACITY"

definition finished :: "stream \<Rightarrow> bool" where
  "finished st \<longleftrightarrow> (\<exists>why. relay_task st = Finished why)"

text \<open>In which situations the task can step, by where it stands in the loop.\<close>

lemma task_step_at:
  "relay_task st = Awaiting_Frame \<Longrightarrow> backend st = [] \<Longrightarrow> (\<exists>st'. task_step token st st') \<longleftrightarrow> \<not> upstream_open st"
  "relay_task st = Awaiting_Frame \<Longrightarrow> backend st = f # rest \<Longrightarrow> \<exists>st'. task_step token st st'"
  "relay_task st = Sending d s \<Longrightarrow>
     (\<exists>st'. task_step token st st') \<longleftrightarrow> \<not> receiver_open st \<or> length (chan st) < CHANNEL_CAPACITY"
  "relay_task st = Sending_Revoked d s \<Longrightarrow>
     (\<exists>st'. task_step token st st') \<longleftrightarrow> \<not> receiver_open st \<or> length (chan st) < CHANNEL_CAPACITY"
  "relay_task st = Finished why \<Longrightarrow> \<nexists>st'. task_step token st st'"
proof -
  show "relay_task st = Awaiting_Frame \<Longrightarrow> backend st = f # rest \<Longrightarrow> \<exists>st'. task_step token st st'"
    by (cases f; cases "contains_token token (shared_store st)") (blast intro: task_step.intros)+
  show "(\<exists>st'. task_step token st st') \<longleftrightarrow> \<not> receiver_open st \<or> length (chan st) < CHANNEL_CAPACITY"
    if s: "relay_task st = Sending d s"
    by (cases "receiver_open st")
      (auto simp: s intro: task_step.send_data [OF s] task_step.client_gone [OF s] elim!: task_step.cases)
  show "(\<exists>st'. task_step token st st') \<longleftrightarrow> \<not> receiver_open st \<or> length (chan st) < CHANNEL_CAPACITY"
    if s: "relay_task st = Sending_Revoked d s"
    by (cases "receiver_open st")
      (auto simp: s intro: task_step.send_revoked [OF s] task_step.revoked_unheard [OF s] elim!: task_step.cases)
qed (auto intro: task_step.upstream_done elim!: task_step.cases)

lemma task_can_step:
  assumes "chan_inv st"
  shows "(\<exists>st'. task_step token st st') \<longleftrightarrow> \<not> finished st \<and> \<not> waits_for_backend st \<and> \<not> waits_for_client st"
proof (cases "relay_task st")
  case Awaiting_Frame
  then show ?thesis
    using task_step_at(1,2) [of st] by (cases "backend st") (simp_all add: finished_def waits_for_backend_def waits_for_client_def)
next
  case (Sending d s)
  then show ?thesis
    using assms task_step_at(3) [OF Sending] by (auto simp: finished_def waits_for_backend_def waits_for_client_def chan_inv_def)
next
  case (Sending_Revoked d s)
  then show ?thesis
    using assms task_step_at(4) [OF Sending_Revoked]
    by (auto simp: finished_def waits_for_backend_def waits_for_client_def chan_inv_def)
qed (use task_step_at(5) in \<open>simp add: finished_def\<close>)

lemma backend_unblocks:
  "waits_for_backend st \<Longrightarrow> chan_inv st \<Longrightarrow> backend_step st st' \<Longrightarrow> \<exists>st''. task_step token st' st''"
  using task_can_step [of st' token] chan_inv_step [OF stream_step.backend]
  by (auto simp: waits_for_backend_def waits_for_client_def finished_def elim!: backend_step.cases)

lemma client_unblocks:
  "waits_for_client st \<Longrightarrow> chan_inv st \<Longrightarrow> client_step st st' \<Longrightarrow> \<exists>st''. task_step token st' st''"
  using task_can_step [of st' token] chan_inv_step [OF stream_step.client]
  by (auto simp: waits_for_backend_def waits_for_client_def finished_def elim!: client_step.cases)

subsection \<open>After the bearer is gone\<close>

definition in_flight :: "stream \<Rightarrow> bytes list" where
  "in_flight st = (case relay_task st of Sending d _ \<Rightarrow> [d] | _ \<Rightarrow> [])"

text \<open>
  From a state \<open>st0\<close> on, while the bearer stays gone: a frame whose check had succeeded may still be sent, nothing
  after it but the revocation frame.
\<close>

definition cut_inv :: "string \<Rightarrow> stream \<Rightarrow> stream \<Rightarrow> bool" where
  "cut_inv token st0 st \<longleftrightarrow>
     store_inv (shared_store st) \<and> \<not> contains_token token (shared_store st) \<and>
     (case relay_task st of
        Sending d _ \<Rightarrow> sent st = sent st0 \<and> in_flight st0 = [d]
      | Finished _ \<Rightarrow> \<exists>n. sent st = take n (sent st0 @ in_flight st0 @ [REVOKED_FRAME])
      | _ \<Rightarrow> sent st = sent st0 @ in_flight st0)"

lemma cut_inv_task_step: "task_step token st st' \<Longrightarrow> cut_inv token st0 st \<Longrightarrow> cut_inv token st0 st'"
proof (induction rule: task_step.induct)
  case (upstream_done st)
  then show ?case by (auto simp: cut_inv_def intro!: exI [of _ "length (sent st0 @ in_flight st0)"])
next
  case (upstream_failed st rest)
  then show ?case by (auto simp: cut_inv_def intro!: exI [of _ "length (sent st0 @ in_flight st0)"])
next
  case (client_gone st d s)
  then show ?case by (auto simp: cut_inv_def intro!: exI [of _ "length (sent st0)"])
next
  case (send_revoked st d s)
  then show ?case by (auto simp: cut_inv_def intro!: exI [of _ "length (sent st0 @ in_flight st0 @ [REVOKED_FRAME])"])
next
  case (revoked_unheard st d s)
  then show ?case by (auto simp: cut_inv_def intro!: exI [of _ "length (sent st0 @ in_flight st0)"])
qed (auto simp: cut_inv_def)

lemma cut_inv_frame:
  assumes "relay_task st' = relay_task st" "sent st' = sent st"
    "store_inv (shared_store st')" "\<not> contains_token token (shared_store st')" "cut_inv token st0 st"
  shows "cut_inv token st0 st'"
  using assms(3,4,5) unfolding cut_inv_def assms(1,2) by blast

lemma cut_inv_step:
  "stream_step iter (\<lambda>op. mints op \<noteq> Some token) token st a st' \<Longrightarrow> cut_inv token st0 st \<Longrightarrow> cut_inv token st0 st'"
proof (induction rule: stream_step.induct)
  case (task st st')
  then show ?case by (rule cut_inv_task_step)
next
  case (backend st st')
  have st: "store_inv (shared_store st)" "\<not> contains_token token (shared_store st)"
    using backend.prems by (simp_all add: cut_inv_def)
  from backend show ?case
    by (cases rule: backend_step.cases) (auto intro!: cut_inv_frame [OF _ _ _ _ backend.prems] simp: st)
next
  case (client st st')
  have st: "store_inv (shared_store st)" "\<not> contains_token token (shared_store st)"
    using client.prems by (simp_all add: cut_inv_def)
  from client show ?case
    by (cases rule: client_step.cases) (auto intro!: cut_inv_frame [OF _ _ _ _ client.prems] simp: st)
next
  case (others st op)
  have st: "store_inv (shared_store st)" "\<not> contains_token token (shared_store st)"
    using others.prems by (simp_all add: cut_inv_def)
  have "store_inv (store_exec iter op (shared_store st))" "\<not> contains_token token (store_exec iter op (shared_store st))"
    using bearers.sane_exec [OF st(1) others.hyps(1)] bearers.valid_exec [OF st(1) others.hyps(1)] st(2) others.hyps(2) by blast+
  then show ?case by (intro cut_inv_frame [OF _ _ _ _ others.prems]) simp_all
qed

lemma cut_inv_run:
  "stream_run iter (\<lambda>op. mints op \<noteq> Some token) token st as st' \<Longrightarrow> cut_inv token st0 st \<Longrightarrow> cut_inv token st0 st'"
  by (induction rule: stream_run.induct) (auto intro: cut_inv_step)

lemma cut_inv_start:
  assumes "store_inv (shared_store st)" "\<not> contains_token token (shared_store st)"
  shows "cut_inv token st st"
  using assms by (auto simp: cut_inv_def in_flight_def split: relay_task.splits intro!: exI [of _ "length (sent st)"])

lemma cut_sent:
  assumes "cut_inv token st0 st"
  shows "\<exists>n. sent st = take n (sent st0 @ in_flight st0 @ [REVOKED_FRAME])"
proof (cases "relay_task st")
  case (Sending d s)
  then show ?thesis using assms by (auto simp: cut_inv_def intro!: exI [of _ "length (sent st0)"])
qed (use assms in \<open>auto simp: cut_inv_def intro: exI [of _ "length (sent st0 @ in_flight st0)"]\<close>)

text \<open>A client that has hung up receives nothing more.\<close>

lemma closed_step: "stream_step iter ops token st a st' \<Longrightarrow> \<not> receiver_open st \<Longrightarrow> \<not> receiver_open st' \<and> delivered st' = delivered st"
proof (induction rule: stream_step.induct)
  case (task st st')
  then show ?case by (cases rule: task_step.cases) auto
next
  case (backend st st')
  then show ?case by (cases rule: backend_step.cases) auto
next
  case (client st st')
  then show ?case by (cases rule: client_step.cases) auto
qed simp

lemma closed_run: "stream_run iter ops token st as st' \<Longrightarrow> \<not> receiver_open st \<Longrightarrow> \<not> receiver_open st' \<and> delivered st' = delivered st"
  by (induction rule: stream_run.induct) (use closed_step in fastforce)+

lemma in_flight_length: "length (in_flight st) \<le> 1"
  by (simp add: in_flight_def split: relay_task.splits)

lemma delivered_after_cut:
  assumes "chan_inv st0" "store_inv (shared_store st0)" "\<not> contains_token token (shared_store st0)"
    "stream_run iter (\<lambda>op. mints op \<noteq> Some token) token st0 as st"
  shows "\<exists>n. delivered st = take n (delivered st0 @ chan st0 @ in_flight st0 @ [REVOKED_FRAME])"
proof (cases "receiver_open st0")
  case True
  obtain n where n: "sent st = take n (sent st0 @ in_flight st0 @ [REVOKED_FRAME])"
    using cut_sent [OF cut_inv_run [OF assms(4) cut_inv_start [OF assms(2,3)]]] by blast
  obtain lost where "sent st = delivered st @ chan st @ lost"
    using chan_inv_run [OF assms(4,1)] by (auto simp: chan_inv_def)
  then have "delivered st = take (length (delivered st)) (sent st)" by simp
  moreover have "sent st0 = delivered st0 @ chan st0" using assms(1) True by (simp add: chan_inv_def)
  ultimately show ?thesis using n by (metis append_assoc take_take)
next
  case False
  then show ?thesis using closed_run [OF assms(4)] by (auto intro!: exI [of _ "length (delivered st0)"])
qed

subsection \<open>What streaming promises\<close>

text \<open>
  C25: the concurrent relay refines the sequential one. In every state that task, backend, client and other requests reach
  together, the frames that arrived have been consumed in the backend's order, the client has received an initial part of what was
  sent, and once the task has finished, what was sent and the reason it stopped are what the
  sequential relay computes on the frames consumed and the stores they were checked against.
\<close>

theorem stream_refines_relay:
  assumes "stream_run iter ops token (open_stream s) as st" "relay_task st = Finished why"
  shows "relay token (checked st) = (sent st, why) \<and> map frame (checked st) @ backend st = arrived st \<and>
    (\<exists>lost. sent st = delivered st @ chan st @ lost) \<and> length (chan st) \<le> CHANNEL_CAPACITY"
  using task_inv_run [OF assms(1) task_inv_open] chan_inv_run [OF assms(1) chan_inv_open] assms(2)
  by (simp add: task_inv_def chan_inv_def frame_in_hand_def)

text \<open>
  A stream of one frame: it arrives, is checked, then the bearer is revoked while the task waits for the channel, then
  the frame is sent and taken by the client, and the response ends.
\<close>

definition demo_open :: stream where "demo_open = open_stream full_store"

definition demo_arrived :: stream where
  "demo_arrived = demo_open\<lparr>backend := [Data [1]], arrived := [Data [1]]\<rparr>"

definition demo_sending :: stream where
  "demo_sending = demo_arrived\<lparr>relay_task := Sending [1] full_store, backend := []\<rparr>"

definition demo_revoked :: stream where
  "demo_revoked = demo_sending\<lparr>shared_store := store_exec (\<lambda>m. m) (Revoke [7]) full_store\<rparr>"

definition demo_sent :: stream where
  "demo_sent = note_event (Data [1]) full_store True
     (demo_revoked\<lparr>relay_task := Awaiting_Frame, chan := chan demo_revoked @ [[1]], sent := sent demo_revoked @ [[1]]\<rparr>)"

definition demo_done :: stream where
  "demo_done = demo_sent\<lparr>upstream_open := False, relay_task := Finished Upstream_Done\<rparr>"

lemma demo_fields:
  "relay_task demo_open = Awaiting_Frame" "backend demo_open = []" "upstream_open demo_open" "arrived demo_open = []"
  "relay_task demo_arrived = Awaiting_Frame" "backend demo_arrived = [Data [1]]" "shared_store demo_arrived = full_store"
  "relay_task demo_sending = Sending [1] full_store" "shared_store demo_sending = full_store"
  "relay_task demo_revoked = Sending [1] full_store" "receiver_open demo_revoked" "chan demo_revoked = []"
  "relay_task demo_sent = Awaiting_Frame" "backend demo_sent = []" "chan demo_sent = [[1]]" "receiver_open demo_sent"
  "delivered demo_sent = []" "sent demo_sent = [[1]]" "delivered demo_revoked = []" "sent demo_revoked = []"
  "upstream_open demo_sent" "arrived demo_sent = [Data [1]]"
  "shared_store demo_revoked = store_exec (\<lambda>m. m) (Revoke [7]) full_store"
  "relay_task demo_done = Finished Upstream_Done" "sent demo_done = [[1]]" "arrived demo_done = [Data [1]]"
  by (simp_all add: demo_open_def demo_arrived_def demo_sending_def demo_revoked_def demo_sent_def demo_done_def open_stream_def)

lemma full_store_inv: "store_inv full_store"
  using full_store_facts(1) by (simp add: store_inv_def buckets_ok_def full_store_def member_insert_frame default_inner_def)

lemma demo_run_arrived: "stream_run (\<lambda>m. m) (\<lambda>_. True) ''a'' demo_open [Backend] demo_arrived"
proof -
  have "backend_step demo_open demo_arrived"
    using backend_step.frame_arrives [of demo_open "Data [1]"] by (simp add: demo_fields demo_arrived_def)
  then show ?thesis using stream_run.run_snoc [OF stream_run.run_nil stream_step.backend] by fastforce
qed

lemma demo_run_revoked: "stream_run (\<lambda>m. m) (\<lambda>_. True) ''a'' demo_open [Backend, Task, Others] demo_revoked"
proof -
  have "task_step ''a'' demo_arrived demo_sending"
    using task_step.check_ok [of demo_arrived "[1]" "[]" "''a''"] full_store_facts(3) by (simp add: demo_fields demo_sending_def)
  moreover have "stream_step (\<lambda>m. m) (\<lambda>_. True) ''a'' demo_sending Others demo_revoked"
    using stream_step.others [of "\<lambda>m. m" demo_sending "Revoke [7]" "\<lambda>_. True" "''a''"]
    by (simp add: store_allowed_def iteration_id demo_fields demo_revoked_def)
  ultimately show ?thesis
    using stream_run.run_snoc [OF stream_run.run_snoc [OF demo_run_arrived stream_step.task]] by fastforce
qed

lemma demo_send: "task_step ''a'' demo_revoked demo_sent"
  using task_step.send_data [of demo_revoked "[1]" full_store "''a''"]
  by (simp add: demo_fields demo_sent_def CHANNEL_CAPACITY_def)

lemma demo_run_sent: "stream_run (\<lambda>m. m) (\<lambda>_. True) ''a'' demo_open [Backend, Task, Others, Task] demo_sent"
  using stream_run.run_snoc [OF demo_run_revoked stream_step.task [OF demo_send]] by simp

lemma demo_run_done:
  "stream_run (\<lambda>m. m) (\<lambda>_. True) ''a'' demo_open [Backend, Task, Others, Task, Backend, Task] demo_done"
proof -
  let ?ended = "demo_sent\<lparr>upstream_open := False\<rparr>"
  have "backend_step demo_sent ?ended" by (rule backend_step.response_ends) (simp add: demo_fields)
  moreover have "task_step ''a'' ?ended demo_done"
    using task_step.upstream_done [of ?ended] by (simp add: demo_fields demo_done_def)
  ultimately show ?thesis
    using stream_run.run_snoc [OF stream_run.run_snoc [OF demo_run_sent stream_step.backend] stream_step.task] by fastforce
qed

theorem stream_refines_relay_witness:
  "relay ''a'' (checked demo_done) = ([[1]], Upstream_Done) \<and> map frame (checked demo_done) @ backend demo_done = [Data [1]]"
  using stream_refines_relay [OF demo_run_done [unfolded demo_open_def], of Upstream_Done] by (simp add: demo_fields)

text \<open>
  C26: after a revocation the client of a running stream receives at most what had already passed a check: the frames
  in the channel, at most \<open>CHANNEL_CAPACITY\<close>, and one frame the task was about to send; then at most the revocation
  frame. This holds for every schedule of task, client and other requests that do not mint the token again.
\<close>

theorem stream_after_revoke_bounded:
  assumes "stream_run iter ops token (open_stream s) as0 st0"
    and "store_inv (shared_store st0)" "\<not> contains_token token (shared_store st0)"
    and "stream_run iter (\<lambda>op. mints op \<noteq> Some token) token st0 as st"
  shows "(\<exists>n. delivered st = take n (delivered st0 @ chan st0 @ in_flight st0 @ [REVOKED_FRAME])) \<and>
    length (delivered st) \<le> length (delivered st0) + CHANNEL_CAPACITY + 2"
proof -
  have inv: "chan_inv st0" using chan_inv_run [OF assms(1) chan_inv_open] .
  obtain n where n: "delivered st = take n (delivered st0 @ chan st0 @ in_flight st0 @ [REVOKED_FRAME])"
    using delivered_after_cut [OF inv assms(2-4)] by blast
  then have "length (delivered st) \<le> length (delivered st0) + length (chan st0) + length (in_flight st0) + 1" by simp
  moreover have "length (chan st0) \<le> CHANNEL_CAPACITY" using inv by (simp add: chan_inv_def)
  ultimately show ?thesis using n in_flight_length [of st0] by auto
qed

theorem stream_after_revoke_bounded_witness:
  "\<not> contains_token ''a'' (shared_store demo_revoked) \<and>
   (\<exists>n. delivered (demo_sent\<lparr>chan := [], delivered := [[1]]\<rparr>) = take n ([] @ [] @ [[1]] @ [REVOKED_FRAME]))"
proof -
  have gone: "\<not> contains_token ''a'' (shared_store demo_revoked)" unfolding demo_fields by code_simp
  have inv: "store_inv (shared_store demo_revoked)"
    using store_exec_inv [OF iteration_id full_store_inv, of "Revoke [7]"] by (simp add: demo_fields)
  have "client_step demo_sent (demo_sent\<lparr>chan := [], delivered := [[1]]\<rparr>)"
    using client_step.take_frame [of demo_sent "[1]" "[]"] by (simp add: demo_fields)
  from stream_run.run_snoc [OF stream_run.run_snoc [OF stream_run.run_nil stream_step.task [OF demo_send]] stream_step.client [OF this]]
  have run: "stream_run (\<lambda>m. m) (\<lambda>op. mints op \<noteq> Some ''a'') ''a'' demo_revoked [Task, Client] (demo_sent\<lparr>chan := [], delivered := [[1]]\<rparr>)"
    by simp
  show ?thesis
    using stream_after_revoke_bounded [OF demo_run_revoked [unfolded demo_open_def] inv gone run] gone
    by (simp add: demo_fields in_flight_def)
qed

text \<open>
  C27: when the relay task waits, and for whom. In every state that any schedule reaches, the task can take a step unless it has
  finished, waits for the backend (no frame has arrived that it has not read, and the response is still open), or waits for the client (the
  channel is full and connected). When it waits for the backend, an arriving frame or the end of the response wakes it; when it waits for the
  client, taking a frame or hanging up wakes it, and the client can do so. It never takes more than two steps per frame that has arrived,
  and one more, so once no more frames arrive it makes only finitely many more steps.
\<close>

theorem stream_task_progress:
  assumes "stream_run iter ops token (open_stream s) as st"
  shows "((\<exists>st'. task_step token st st') \<longleftrightarrow> \<not> finished st \<and> \<not> waits_for_backend st \<and> \<not> waits_for_client st) \<and>
    (waits_for_backend st \<longrightarrow> (\<forall>st'. backend_step st st' \<longrightarrow> (\<exists>st''. task_step token st' st''))) \<and>
    (waits_for_client st \<longrightarrow> (\<forall>st'. client_step st st' \<longrightarrow> (\<exists>st''. task_step token st' st'')) \<and>
       (\<exists>st'. client_step st st' \<and> receiver_open st')) \<and>
    count_list as Task \<le> 2 * length (arrived st) + 1"
proof -
  have inv: "chan_inv st" using chan_inv_run [OF assms chan_inv_open] .
  have "count_list as Task \<le> 2 * length (arrived st) + 1"
    using stream_run_work [OF assms] by (simp add: work_left_def open_stream_def)
  moreover have "\<exists>st'. client_step st st' \<and> receiver_open st'" if "waits_for_client st"
  proof -
    have "receiver_open st" "chan st \<noteq> []" using that by (auto simp: waits_for_client_def CHANNEL_CAPACITY_def)
    then obtain x xs where "chan st = x # xs" "receiver_open st" by (cases "chan st") auto
    then show ?thesis
      by (intro exI [of _ "st\<lparr>chan := xs, delivered := delivered st @ [x]\<rparr>"] conjI client_step.take_frame) simp_all
  qed
  ultimately show ?thesis
    using task_can_step [OF inv, of token] backend_unblocks [OF _ inv] client_unblocks [OF _ inv] by blast
qed

theorem stream_task_progress_witness:
  "waits_for_backend demo_open \<and> (\<nexists>st'. task_step ''a'' demo_open st') \<and>
   (\<exists>st'. backend_step demo_open st' \<and> (\<exists>st''. task_step ''a'' st' st'')) \<and> (\<nexists>st'. task_step ''a'' demo_done st') \<and>
   count_list [Backend, Task, Others, Task, Backend, Task] Task = 2 * length (arrived demo_done) + 1"
proof -
  have wait: "waits_for_backend demo_open" by (simp add: waits_for_backend_def demo_fields)
  have run: "stream_run (\<lambda>m. m) (\<lambda>_. True) ''a'' (open_stream full_store) [] demo_open"
    unfolding demo_open_def by (rule stream_run.run_nil)
  have "backend_step demo_open (demo_open\<lparr>upstream_open := False\<rparr>)"
    by (rule backend_step.response_ends) (simp add: demo_fields)
  moreover have "finished demo_done" by (simp add: finished_def demo_fields)
  ultimately show ?thesis
    using wait stream_task_progress [OF run] stream_task_progress [OF demo_run_done [unfolded demo_open_def]]
    by (simp add: demo_fields) blast
qed

end
