(* ===== verification/Instance_Streams.thy ===== *)
theory Instance_Streams
  imports Instance_Server Chat_Stream
begin

text \<open>
  The serving process with its chat streams. \<^verbatim>\<open>Instance_Server\<close> serves messages; a chat request that the backend accepts
  leaves a relay task behind (\<^verbatim>\<open>tokio::spawn\<close> in \<^verbatim>\<open>src/src/chat.rs\<close>), and all tasks consult the one store. A process state is the
  served instance, the chat requests whose bearer was checked and whose backend response is still awaited, and the
  streams; the steps of all of them interleave freely.

  Each stream is shown to run as in \<^verbatim>\<open>Chat_Stream\<close> (the rest of the process being its other requests), so what holds
  there holds of the whole process: what a client receives was checked against a bearer of a manifest member, and a signed
  revoke silences every stream of the member.
\<close>

subsection \<open>What an event does to the store\<close>

definition drawn_token :: "bytes option \<Rightarrow> string option" where
  "drawn_token drawn = map_option b64url_nopad drawn"

definition store_moves :: "(pubkey, member) iteration \<Rightarrow> bytes option \<Rightarrow> inner \<Rightarrow> inner \<Rightarrow> bool" where
  "store_moves iter drawn s s' \<longleftrightarrow>
     (\<exists>ops. run_ok (store_allowed iter) (store_exec iter) s ops \<and> s' = fold (store_exec iter) ops s \<and>
        (\<forall>op \<in> set ops. mints op \<in> {None, drawn_token drawn}))"

lemma run_ok_append: "run_ok allowed exec s (xs @ ys) \<longleftrightarrow> run_ok allowed exec s xs \<and> run_ok allowed exec (fold exec xs s) ys"
  by (induction xs arbitrary: s) simp_all

lemma store_moves_refl [simp]: "store_moves iter drawn s s"
  unfolding store_moves_def by (rule exI [of _ "[]"]) simp

lemma store_moves_trans: "store_moves iter drawn s s' \<Longrightarrow> store_moves iter drawn s' s'' \<Longrightarrow> store_moves iter drawn s s''"
  unfolding store_moves_def
proof (elim exE conjE)
  fix xs ys
  assume "run_ok (store_allowed iter) (store_exec iter) s xs" "s' = fold (store_exec iter) xs s"
    "\<forall>op \<in> set xs. mints op \<in> {None, drawn_token drawn}" "run_ok (store_allowed iter) (store_exec iter) s' ys"
    "s'' = fold (store_exec iter) ys s'" "\<forall>op \<in> set ys. mints op \<in> {None, drawn_token drawn}"
  then show "\<exists>ops. run_ok (store_allowed iter) (store_exec iter) s ops \<and> s'' = fold (store_exec iter) ops s \<and>
      (\<forall>op \<in> set ops. mints op \<in> {None, drawn_token drawn})"
    by (intro exI [of _ "xs @ ys"]) (auto simp: run_ok_append)
qed

lemma store_moves_exec:
  assumes "iteration_of iter" "admissible s op" "mints op \<in> {None, drawn_token drawn}"
  shows "store_moves iter drawn s (store_exec iter op s)"
  unfolding store_moves_def using assms by (intro exI [of _ "[op]"]) (simp add: store_allowed_def)

lemma store_moves_note: "iteration_of iter \<Longrightarrow> store_moves iter drawn s (snd (note_nonce n s))"
  using store_moves_exec [of iter s "Note_Nonce n"] by simp

lemma store_moves_allow: "iteration_of iter \<Longrightarrow> store_moves iter drawn s (snd (allow_attestation now pk s))"
  using store_moves_exec [of iter s "Allow_Attestation now pk"] by simp

lemma store_moves_apply: "iteration_of iter \<Longrightarrow> store_moves iter drawn s (snd (manage_apply iter a s))"
  using store_moves_exec [of iter s "Revoke _"]
  by (simp add: manage_apply_def case_prod_unfold Let_def split: option.splits)

lemma store_moves_enroll:
  assumes "iteration_of iter" "ulower_not_hex (unicode_lower libs)" "fresh_random csprng st"
    "enroll_handler libs csprng st client req = (out, st')"
  shows "store_moves iter csprng (members st) (members st')"
  using assms(2)
proof (cases rule: enroll_cases [of libs client st req csprng])
  case (1 pk claims tx buf)
  let ?e = "enroll_entry libs pk claims tx buf"
  have "admissible (members st) (Insert ?e)" "mints (Insert ?e) = drawn_token csprng"
    using assms(3) 1(3) by (simp_all add: fresh_random_def enroll_entry_def drawn_token_def)
  then have "store_moves iter csprng (members st) (snd (member_insert ?e (members st)))"
    using store_moves_exec [OF assms(1), of "members st" "Insert ?e" csprng] by simp
  then show ?thesis using 1(4) assms(4) by auto
qed (use assms(4) in auto)

lemma store_moves_attestation:
  assumes "iteration_of iter" "attestation_handler libs now st env client q = (r, st', env')"
  shows "store_moves iter drawn (members st) (members st')"
  using assms(2) store_moves_allow [OF assms(1)]
  by (auto simp: attestation_handler_def Let_def case_prod_unfold split: option.splits if_splits)

lemma store_moves_manage:
  assumes "iteration_of iter" "manage_handler libs iter st env = (r, st')"
  shows "store_moves iter drawn (members st) (members st')"
proof (cases "manage_authenticate libs (orch_manage_pubkey (trust st)) env")
  case (Inl r')
  then show ?thesis using assms(2) by (simp add: manage_handler_def)
next
  case (Inr a)
  have "members st' = snd (note_nonce (nonce a) (members st)) \<or>
      members st' = snd (manage_apply iter a (snd (note_nonce (nonce a) (members st))))"
    using assms(2) Inr by (auto simp: manage_handler_def case_prod_unfold Let_def split: if_splits)
  then show ?thesis
    using store_moves_note [OF assms(1)] store_moves_apply [OF assms(1)] store_moves_trans by metis
qed

lemma dispatch_store_moves:
  assumes "libs_ok L" "fresh_random (call_csprng c) (app i)" "dispatch L H X c i req = (out, j)"
  shows "store_moves (lib_iter L) (call_csprng c) (members (app i)) (members (app j))"
proof (cases "route (msg_method (request req)) (msg_path (request req))")
  case (Some h)
  have low: "ulower_not_hex (unicode_lower (lib_enroll L))" and it: "iteration_of (lib_iter L)"
    using assms(1) by (simp_all add: libs_ok_def)
  show ?thesis
    using assms(3) Some store_moves_enroll [OF it low assms(2)] store_moves_attestation [OF it] store_moves_manage [OF it]
    by (cases h) (auto simp: dispatch_def Let_def split: option.splits prod.splits)
qed (use assms(3) in \<open>simp add: dispatch_def\<close>)

lemma event_store_moves:
  assumes "libs_ok L" "network_event L H X T cfg drawn i j"
  shows "store_moves (lib_iter L) drawn (members (app i)) (members (app j))"
  using assms(2)
proof (cases rule: network_event.cases)
  case (serve_message stream conn c msg out)
  then show ?thesis
    using dispatch_store_moves [OF assms(1)] by (auto simp: serve_def add_client_pubkey_call_def call_ok_def)
next
  case (serve_manage_guard stream conn msg env a fresh s')
  then have "s' = snd (note_nonce (nonce a) (members (app i)))" by simp
  then show ?thesis using serve_manage_guard(2) assms(1) store_moves_note by (simp add: libs_ok_def)
next
  case (serve_manage_action before a after r s')
  then have "s' = snd (manage_apply (lib_iter L) a (members (app i)))" by simp
  then show ?thesis using serve_manage_action(2) assms(1) store_moves_apply by (simp add: libs_ok_def)
qed

subsection \<open>The process\<close>

record ('k, 'v, 'f) process =
  served_instance :: "('k, 'v, 'f) instance_state"
  awaiting :: "string list"
  streams :: "(string \<times> stream) list"

abbreviation process_store :: "('k, 'v, 'f) process \<Rightarrow> inner" where
  "process_store p \<equiv> members (app (served_instance p))"

definition boot_process :: "('k, 'v) app_state \<Rightarrow> 'f attest_env \<Rightarrow> ('k, 'v, 'f) process" where
  "boot_process st env = \<lparr>served_instance = boot_instance st env, awaiting = [], streams = []\<rparr>"

text \<open>All relay tasks hold a handle on the one store.\<close>

definition share_store :: "inner \<Rightarrow> string \<times> stream \<Rightarrow> string \<times> stream" where
  "share_store s ts = (fst ts, (snd ts)\<lparr>shared_store := s\<rparr>)"

datatype process_label = Net "bytes option" | Chat | Opening | Streaming nat

inductive process_step ::
  "('k, 'v, 's, 'c, 'p, 'f) instance_libs \<Rightarrow> http_lib \<Rightarrow> axum_lib \<Rightarrow> ('a, 'd, 'i) tls_lib \<Rightarrow> 'a server_config \<Rightarrow>
   ('k, 'v, 'f) process \<Rightarrow> process_label \<Rightarrow> ('k, 'v, 'f) process \<Rightarrow> bool"
  for L H X T cfg where
  net: "network_event L H X T cfg drawn (served_instance p) j \<Longrightarrow>
    process_step L H X T cfg p (Net drawn)
      (p\<lparr>served_instance := j, streams := map (share_store (members (app j))) (streams p)\<rparr>)"
| chat: "mtls_accept (x509 (lib_enroll L)) T cfg sock = Some conn \<Longrightarrow>
    serve L H X c (served_instance p) conn msg = (Chat_Reply out, j) \<Longrightarrow> relay_for out = Some t \<Longrightarrow>
    process_step L H X T cfg p Chat (p\<lparr>awaiting := t # awaiting p\<rparr>)"
| open_chat: "awaiting p = before @ t # after \<Longrightarrow>
    process_step L H X T cfg p Opening
      (p\<lparr>awaiting := before @ after, streams := streams p @ [(t, open_stream (process_store p))]\<rparr>)"
| relay: "k < length (streams p) \<Longrightarrow> streams p ! k = (t, st) \<Longrightarrow> task_step t st st' \<Longrightarrow>
    process_step L H X T cfg p (Streaming k) (p\<lparr>streams := (streams p)[k := (t, st')]\<rparr>)"
| upstream: "k < length (streams p) \<Longrightarrow> streams p ! k = (t, st) \<Longrightarrow> backend_step st st' \<Longrightarrow>
    process_step L H X T cfg p (Streaming k) (p\<lparr>streams := (streams p)[k := (t, st')]\<rparr>)"
| read_body: "k < length (streams p) \<Longrightarrow> streams p ! k = (t, st) \<Longrightarrow> client_step st st' \<Longrightarrow>
    process_step L H X T cfg p (Streaming k) (p\<lparr>streams := (streams p)[k := (t, st')]\<rparr>)"

inductive process_run ::
  "('k, 'v, 's, 'c, 'p, 'f) instance_libs \<Rightarrow> http_lib \<Rightarrow> axum_lib \<Rightarrow> ('a, 'd, 'i) tls_lib \<Rightarrow> 'a server_config \<Rightarrow>
   ('k, 'v, 'f) process \<Rightarrow> process_label list \<Rightarrow> ('k, 'v, 'f) process \<Rightarrow> bool"
  for L H X T cfg p where
  run_start: "process_run L H X T cfg p [] p"
| run_step: "process_run L H X T cfg p ls q \<Longrightarrow> process_step L H X T cfg q l q' \<Longrightarrow> process_run L H X T cfg p (ls @ [l]) q'"

text \<open>No message of the run draws the random bytes of the token \<open>t\<close>.\<close>

definition quiet :: "string \<Rightarrow> process_label \<Rightarrow> bool" where
  "quiet t l \<longleftrightarrow> (\<forall>drawn. l = Net drawn \<longrightarrow> drawn_token drawn \<noteq> Some t)"

definition never_drawn :: "string \<Rightarrow> process_label list \<Rightarrow> bool" where
  "never_drawn t ls \<longleftrightarrow> list_all (quiet t) ls"

lemma quiet_Net: "quiet t (Net drawn) \<longleftrightarrow> drawn_token drawn \<noteq> Some t"
  by (simp add: quiet_def)

subsection \<open>Every stream runs as in \<^verbatim>\<open>Chat_Stream\<close>\<close>

lemma stream_run_trans:
  "stream_run iter ops t st' bs st'' \<Longrightarrow> stream_run iter ops t st as st' \<Longrightarrow> stream_run iter ops t st (as @ bs) st''"
proof (induction rule: stream_run.induct)
  case (run_snoc st0 bs st1 a st2)
  then show ?case using stream_run.run_snoc [of iter ops t st "as @ bs" st1 a st2] by simp
qed simp

lemma stream_run_one: "stream_step iter ops t st a st' \<Longrightarrow> stream_run iter ops t st [a] st'"
  using stream_run.run_snoc [OF stream_run.run_nil] by force

lemma others_run:
  assumes "run_ok (store_allowed iter) (store_exec iter) (shared_store st) xs" "\<forall>op \<in> set xs. ops op"
  shows "stream_run iter ops t st (replicate (length xs) Others) (st\<lparr>shared_store := fold (store_exec iter) xs (shared_store st)\<rparr>)"
  using assms
proof (induction xs rule: rev_induct)
  case Nil
  then show ?case using stream_run.run_nil [of iter ops t st] by simp
next
  case (snoc op xs)
  let ?s = "fold (store_exec iter) xs (shared_store st)"
  have "stream_step iter ops t (st\<lparr>shared_store := ?s\<rparr>) Others (st\<lparr>shared_store := store_exec iter op ?s\<rparr>)"
    using stream_step.others [of iter "st\<lparr>shared_store := ?s\<rparr>" op ops t] snoc.prems by (simp add: run_ok_append)
  moreover have "stream_run iter ops t st (replicate (length xs) Others) (st\<lparr>shared_store := ?s\<rparr>)"
    using snoc by (simp add: run_ok_append)
  ultimately show ?case
    using stream_run.run_snoc by (fastforce simp flip: replicate_append_same)
qed

lemma moves_run:
  assumes "store_moves iter drawn (shared_store st) s'" "drawn_token drawn \<noteq> Some t"
  shows "\<exists>as. stream_run iter (\<lambda>op. mints op \<noteq> Some t) t st as (st\<lparr>shared_store := s'\<rparr>)"
proof -
  obtain xs where xs: "run_ok (store_allowed iter) (store_exec iter) (shared_store st) xs"
    "s' = fold (store_exec iter) xs (shared_store st)" "\<forall>op \<in> set xs. mints op \<in> {None, drawn_token drawn}"
    using assms(1) by (auto simp: store_moves_def)
  then have "\<forall>op \<in> set xs. mints op \<noteq> Some t" using assms(2) by force
  from others_run [OF xs(1) this] show ?thesis using xs(2) by blast
qed

definition in_sync :: "('k, 'v, 'f) process \<Rightarrow> bool" where
  "in_sync p \<longleftrightarrow> (\<forall>ts \<in> set (streams p). shared_store (snd ts) = process_store p)"

lemma task_store: "task_step t st st' \<Longrightarrow> shared_store st' = shared_store st"
  by (induction rule: task_step.induct) simp_all

lemma client_store: "client_step st st' \<Longrightarrow> shared_store st' = shared_store st"
  by (induction rule: client_step.induct) simp_all

lemma backend_store: "backend_step st st' \<Longrightarrow> shared_store st' = shared_store st"
  by (induction rule: backend_step.induct) simp_all

lemma in_sync_stream: "in_sync p \<Longrightarrow> k < length (streams p) \<Longrightarrow> streams p ! k = (t, st) \<Longrightarrow> shared_store st = process_store p"
  using nth_mem [of k "streams p"] by (auto simp: in_sync_def)

lemma in_sync_update:
  assumes "in_sync p" "k < length (streams p)" "streams p ! k = (t, st)" "shared_store st' = shared_store st"
  shows "in_sync (p\<lparr>streams := (streams p)[k := (t, st')]\<rparr>)"
  unfolding in_sync_def
proof
  fix ts assume "ts \<in> set (streams (p\<lparr>streams := (streams p)[k := (t, st')]\<rparr>))"
  then have "ts = (t, st') \<or> ts \<in> set (streams p)" using set_update_subset_insert by fastforce
  moreover have "shared_store (snd ts) = process_store p" if "ts \<in> set (streams p)" using assms(1) that unfolding in_sync_def by blast
  ultimately show "shared_store (snd ts) = process_store (p\<lparr>streams := (streams p)[k := (t, st')]\<rparr>)"
    using assms(4) in_sync_stream [OF assms(1-3)] by auto
qed

lemma in_sync_step: "process_step L H X T cfg p l q \<Longrightarrow> in_sync p \<Longrightarrow> in_sync q"
proof (induction rule: process_step.induct)
  case (relay k p t st st')
  then show ?case using in_sync_update [OF relay.prems relay.hyps(1,2)] task_store [OF relay.hyps(3)] by simp
next
  case (upstream k p t st st')
  then show ?case using in_sync_update [OF upstream.prems upstream.hyps(1,2)] backend_store [OF upstream.hyps(3)] by simp
next
  case (read_body k p t st st')
  then show ?case using in_sync_update [OF read_body.prems read_body.hyps(1,2)] client_store [OF read_body.hyps(3)] by simp
qed (auto simp: in_sync_def share_store_def open_stream_def)

lemma step_stream:
  assumes "libs_ok L" "process_step L H X T cfg p l q" "in_sync p" "k < length (streams p)" "streams p ! k = (t, st)"
    "quiet t l"
  shows "k < length (streams q) \<and> (\<exists>as st'. streams q ! k = (t, st') \<and>
    stream_run (lib_iter L) (\<lambda>op. mints op \<noteq> Some t) t st as st')"
  using assms(2)
proof (cases rule: process_step.cases)
  case (net drawn j)
  have "shared_store st = process_store p" using in_sync_stream [OF assms(3-5)] .
  then have "store_moves (lib_iter L) drawn (shared_store st) (members (app j))"
    using event_store_moves [OF assms(1) net(3)] by simp
  from moves_run [OF this assms(6) [unfolded net(1) quiet_Net]] show ?thesis using net(2) assms(4,5) by (auto simp: share_store_def)
next
  case (relay k' t' st0 st0')
  show ?thesis
  proof (cases "k' = k")
    case True
    then have "stream_step (lib_iter L) (\<lambda>op. mints op \<noteq> Some t) t st Task st0'"
      using relay(4,5) assms(5) by (auto intro: stream_step.task)
    from stream_run_one [OF this] show ?thesis using relay True assms(4,5) by auto
  next
    case False
    then show ?thesis using relay(2) assms(4,5) stream_run.run_nil by (fastforce simp: nth_list_update)
  qed
next
  case (upstream k' t' st0 st0')
  show ?thesis
  proof (cases "k' = k")
    case True
    then have "stream_step (lib_iter L) (\<lambda>op. mints op \<noteq> Some t) t st Backend st0'"
      using upstream(4,5) assms(5) by (auto intro: stream_step.backend)
    from stream_run_one [OF this] show ?thesis using upstream True assms(4,5) by auto
  next
    case False
    then show ?thesis using upstream(2) assms(4,5) stream_run.run_nil by (fastforce simp: nth_list_update)
  qed
next
  case (read_body k' t' st0 st0')
  show ?thesis
  proof (cases "k' = k")
    case True
    then have "stream_step (lib_iter L) (\<lambda>op. mints op \<noteq> Some t) t st Client st0'"
      using read_body(4,5) assms(5) by (auto intro: stream_step.client)
    from stream_run_one [OF this] show ?thesis using read_body True assms(4,5) by auto
  next
    case False
    then show ?thesis using read_body(2) assms(4,5) stream_run.run_nil by (fastforce simp: nth_list_update)
  qed
qed (use assms(4,5) stream_run.run_nil in \<open>fastforce simp: nth_append\<close>)+

subsection \<open>The invariant of the process\<close>

definition member_bearer :: "manifest \<Rightarrow> string \<Rightarrow> inner \<Rightarrow> bool" where
  "member_bearer m t s \<longleftrightarrow> (\<exists>e. get_by_token t s = Some e \<and> (client_pubkey e, member_hash e) \<in> manifest_pairs m)"

text \<open>A frame that passed a check against a store in which the bearer is a manifest member's.\<close>

definition vouched :: "manifest \<Rightarrow> string \<Rightarrow> relay_event list \<Rightarrow> bytes \<Rightarrow> bool" where
  "vouched m t evs x \<longleftrightarrow> (\<exists>ev \<in> set evs. frame ev = Data x \<and> member_bearer m t (store_at_check ev))"

lemma vouched_append: "vouched m t evs x \<Longrightarrow> vouched m t (evs @ [ev]) x"
  by (auto simp: vouched_def)

lemma vouched_new: "member_bearer m t s \<Longrightarrow> vouched m t (evs @ [\<lparr>frame = Data x, store_at_check = s, client_listens = l\<rparr>]) x"
  by (auto simp: vouched_def)

definition stream_ok :: "manifest \<Rightarrow> string \<Rightarrow> stream \<Rightarrow> bool" where
  "stream_ok m t st \<longleftrightarrow> chan_inv st \<and> (\<forall>x \<in> set (sent st). x = REVOKED_FRAME \<or> vouched m t (checked st) x) \<and>
     (\<forall>d s. relay_task st = Sending d s \<longrightarrow> member_bearer m t s)"

lemma chan_inv_task: "task_step t st st' \<Longrightarrow> chan_inv st \<Longrightarrow> chan_inv st'"
  using chan_inv_step [OF stream_step.task] .

lemma chan_inv_client: "client_step st st' \<Longrightarrow> chan_inv st \<Longrightarrow> chan_inv st'"
  using chan_inv_step [OF stream_step.client] .

lemma stream_ok_task:
  assumes "task_step t st st'" "stream_ok m t st" "contains_token t (shared_store st) \<Longrightarrow> member_bearer m t (shared_store st)"
  shows "stream_ok m t st'"
proof -
  have "(\<forall>x \<in> set (sent st'). x = REVOKED_FRAME \<or> vouched m t (checked st') x) \<and>
     (\<forall>d s. relay_task st' = Sending d s \<longrightarrow> member_bearer m t s)"
    using assms by (cases rule: task_step.cases) (auto simp: stream_ok_def intro: vouched_append vouched_new)
  then show ?thesis using assms chan_inv_task by (simp add: stream_ok_def)
qed

lemma stream_ok_frame:
  assumes "chan_inv st'" "sent st' = sent st" "checked st' = checked st" "relay_task st' = relay_task st" "stream_ok m t st"
  shows "stream_ok m t st'"
  using assms(1,5) unfolding stream_ok_def assms(2-4) by blast

lemma stream_ok_client: "client_step st st' \<Longrightarrow> stream_ok m t st \<Longrightarrow> stream_ok m t st'"
proof (rule stream_ok_frame)
  assume "client_step st st'" "stream_ok m t st"
  then show "chan_inv st'" using chan_inv_client by (simp add: stream_ok_def)
qed (auto elim: client_step.cases)

lemma stream_ok_backend: "backend_step st st' \<Longrightarrow> stream_ok m t st \<Longrightarrow> stream_ok m t st'"
proof (rule stream_ok_frame)
  assume "backend_step st st'" "stream_ok m t st"
  then show "chan_inv st'" using chan_inv_step [OF stream_step.backend] by (simp add: stream_ok_def)
qed (auto elim: backend_step.cases)

lemma stream_ok_open: "stream_ok m t (open_stream s)"
  using chan_inv_open by (simp add: stream_ok_def) (simp add: open_stream_def)

lemma stream_ok_share: "stream_ok m t st \<Longrightarrow> stream_ok m t (st\<lparr>shared_store := s\<rparr>)"
  by (rule stream_ok_frame) (simp_all add: stream_ok_def chan_inv_def)

definition process_inv :: "manifest \<Rightarrow> ('k, 'v, 'f) process \<Rightarrow> bool" where
  "process_inv m p \<longleftrightarrow> server_inv m (served_instance p) \<and> in_sync p \<and> (\<forall>ts \<in> set (streams p). stream_ok m (fst ts) (snd ts))"

lemma server_inv_bearer: "server_inv m i \<Longrightarrow> contains_token t (members (app i)) \<Longrightarrow> member_bearer m t (members (app i))"
proof -
  assume inv: "server_inv m i" and t: "contains_token t (members (app i))"
  then obtain e where e: "get_by_token t (members (app i)) = Some e"
    using get_by_token_contains [OF server_invD(1) [OF inv]] by blast
  then have "(client_pubkey e, member_hash e) \<in> manifest_pairs m"
    using server_invD(3) [OF inv] unfolding get_by_token_iff [OF server_invD(1) [OF inv]] by (auto simp: members_listed_def)
  with e show ?thesis unfolding member_bearer_def by blast
qed

lemma process_inv_update:
  assumes "process_inv m p" "k < length (streams p)" "stream_ok m t st'" "in_sync (p\<lparr>streams := (streams p)[k := (t, st')]\<rparr>)"
  shows "process_inv m (p\<lparr>streams := (streams p)[k := (t, st')]\<rparr>)"
proof -
  have "stream_ok m (fst ts) (snd ts)" if "ts \<in> set ((streams p)[k := (t, st')])" for ts
  proof -
    have "ts = (t, st') \<or> ts \<in> set (streams p)" using that set_update_subset_insert by fastforce
    then show ?thesis using assms(1,3) by (auto simp: process_inv_def)
  qed
  then show ?thesis using assms(1,4) by (simp add: process_inv_def)
qed

lemma process_inv_step:
  assumes "serving L T m cfg" "process_inv m p" "process_step L H X T cfg p l q"
  shows "process_inv m q"
  using assms(3)
proof (cases rule: process_step.cases)
  case (net drawn j)
  have "server_inv m j"
    using network_step_inv [OF assms(1), of "served_instance p"] assms(2) net(3) by (auto simp: process_inv_def network_step_def)
  moreover have "in_sync q" using in_sync_step [OF assms(3)] assms(2) by (simp add: process_inv_def)
  ultimately show ?thesis
    using assms(2) net(2) by (auto simp: process_inv_def share_store_def intro: stream_ok_share)
next
  case (chat sock conn c msg out j t)
  then show ?thesis using assms(2) in_sync_step [OF assms(3)] by (simp add: process_inv_def)
next
  case (open_chat before t after)
  then show ?thesis using assms(2) in_sync_step [OF assms(3)] stream_ok_open by (auto simp: process_inv_def)
next
  case (relay k t st st')
  have ok: "stream_ok m t st" "shared_store st = process_store p"
    using assms(2) relay(3,4) nth_mem [OF relay(3)] in_sync_stream by (auto simp: process_inv_def)
  have srv: "server_inv m (served_instance p)" using assms(2) by (simp add: process_inv_def)
  have "stream_ok m t st'"
    by (rule stream_ok_task [OF relay(5) ok(1)]) (use server_inv_bearer [OF srv] in \<open>simp add: ok(2)\<close>)
  then show ?thesis
    using process_inv_update [OF assms(2) relay(3)] in_sync_step [OF assms(3)] assms(2) relay(2) by (simp add: process_inv_def)
next
  case (upstream k t st st')
  have "stream_ok m t st'"
    using stream_ok_backend [OF upstream(5)] assms(2) upstream(3,4) nth_mem [OF upstream(3)] by (auto simp: process_inv_def)
  then show ?thesis
    using process_inv_update [OF assms(2) upstream(3)] in_sync_step [OF assms(3)] assms(2) upstream(2) by (simp add: process_inv_def)
next
  case (read_body k t st st')
  have "stream_ok m t st'"
    using stream_ok_client [OF read_body(5)] assms(2) read_body(3,4) nth_mem [OF read_body(3)] by (auto simp: process_inv_def)
  then show ?thesis
    using process_inv_update [OF assms(2) read_body(3)] in_sync_step [OF assms(3)] assms(2) read_body(2) by (simp add: process_inv_def)
qed

lemma process_inv_run:
  "process_run L H X T cfg p ls q \<Longrightarrow> serving L T m cfg \<Longrightarrow> process_inv m p \<Longrightarrow> process_inv m q"
  by (induction rule: process_run.induct) (auto intro: process_inv_step)

lemma boot_process_inv: "process_inv (cohort st) (boot_process st env)"
  using boot_server_inv by (simp add: process_inv_def boot_process_def in_sync_def)

text \<open>
  C3: no byte of the backend leaves the process for anyone but a member. Whatever a booted process does, everything that any
  chat client has received is the revocation frame or a frame that the backend sent and that was checked, between the two,
  against a store in which the client's bearer resolves to a (public key, member hash) pair of the manifest.
\<close>

theorem streams_only_for_members:
  assumes "libs_ok L" "digest_32 (lib_enroll L)" "mandatory_client_auth (x509 (lib_enroll L)) (boot_tls b)" "main_boot b = Return r"
    and run: "process_run L H X (boot_tls b) (boot_config r) (boot_process (boot_state r) env) ls p"
    and stream: "(t, st) \<in> set (streams p)" "x \<in> set (delivered st)"
  shows "x = REVOKED_FRAME \<or>
    (\<exists>ev \<in> set (checked st). frame ev = Data x \<and>
       (\<exists>e. get_by_token t (store_at_check ev) = Some e \<and>
          (client_pubkey e, member_hash e) \<in> manifest_pairs (cohort (boot_state r))))"
proof -
  have "process_inv (cohort (boot_state r)) p"
    using process_inv_run [OF run booted_serving [OF assms(1-4)] boot_process_inv] .
  then have ok: "stream_ok (cohort (boot_state r)) t st" using stream(1) by (auto simp: process_inv_def)
  then obtain lost where "sent st = delivered st @ chan st @ lost" by (auto simp: stream_ok_def chan_inv_def)
  then have "x \<in> set (sent st)" using stream(2) by simp
  then show ?thesis using ok by (auto simp: stream_ok_def vouched_def member_bearer_def)
qed

subsection \<open>Revocation in the process\<close>

text \<open>From a state in which the bearer is gone, streams of that bearer run on as streams of \<^verbatim>\<open>Chat_Stream\<close> after a cut.\<close>

definition cut_stream :: "(pubkey, member) iteration \<Rightarrow> string \<Rightarrow> stream \<Rightarrow> stream \<Rightarrow> bool" where
  "cut_stream iter t st0 st \<longleftrightarrow> chan_inv st0 \<and> store_inv (shared_store st0) \<and> \<not> contains_token t (shared_store st0) \<and>
     (\<exists>as. stream_run iter (\<lambda>op. mints op \<noteq> Some t) t st0 as st)"

lemma cut_stream_refl:
  "chan_inv st \<Longrightarrow> store_inv (shared_store st) \<Longrightarrow> \<not> contains_token t (shared_store st) \<Longrightarrow> cut_stream iter t st st"
  unfolding cut_stream_def using stream_run.run_nil by blast

lemma cut_stream_delivered:
  "cut_stream iter t st0 st \<Longrightarrow> \<exists>n. delivered st = take n (delivered st0 @ chan st0 @ in_flight st0 @ [REVOKED_FRAME])"
  using delivered_after_cut unfolding cut_stream_def by blast

lemma process_inv_store: "process_inv m p \<Longrightarrow> store_inv (process_store p)"
  by (simp add: process_inv_def server_inv_def instance_inv_def)

lemma process_stream:
  assumes "process_inv m p" "k < length (streams p)" "streams p ! k = (t, st)"
  shows "chan_inv st" "shared_store st = process_store p"
  using assms nth_mem [OF assms(2)] in_sync_stream by (auto simp: process_inv_def stream_ok_def)

lemma step_cut:
  assumes "serving L T m cfg" "process_inv m p" "process_step L H X T cfg p l q" "\<not> contains_token t (process_store p)"
    "quiet t l"
  shows "\<not> contains_token t (process_store q)"
  using assms(3)
proof (cases rule: process_step.cases)
  case (net drawn j)
  have "libs_ok L" using assms(1) by (simp add: serving_def)
  from event_store_moves [OF this net(3)] obtain ops where
    "run_ok (store_allowed (lib_iter L)) (store_exec (lib_iter L)) (process_store p) ops"
    "members (app j) = fold (store_exec (lib_iter L)) ops (process_store p)"
    "\<forall>op \<in> set ops. mints op \<in> {None, drawn_token drawn}"
    by (auto simp: store_moves_def)
  moreover from this(3) have "\<forall>op \<in> set ops. mints op \<noteq> Some t" using assms(5) [unfolded net(1) quiet_Net] by force
  ultimately show ?thesis
    using bearers.cut_stays_cut [OF process_inv_store [OF assms(2)]] assms(4) net(2) by simp
qed (use assms(4) in simp_all)

lemma cut_stream_step:
  assumes "serving L T m cfg" "process_inv m p" "process_step L H X T cfg p l q"
    "quiet t l"
    "k < length (streams p)" "streams p ! k = (t, st)" "cut_stream (lib_iter L) t st0 st"
  shows "k < length (streams q) \<and> (\<exists>st'. streams q ! k = (t, st') \<and> cut_stream (lib_iter L) t st0 st')"
proof -
  have "libs_ok L" "in_sync p" using assms(1,2) by (simp_all add: serving_def process_inv_def)
  from step_stream [OF this(1) assms(3) this(2) assms(5,6,4)] show ?thesis
    using assms(7) stream_run_trans unfolding cut_stream_def by blast
qed

lemma step_length: "process_step L H X T cfg p l q \<Longrightarrow> length (streams p) \<le> length (streams q)"
  by (induction rule: process_step.induct) simp_all

text \<open>The streams that were there go on from where they were; a new one starts with nothing delivered.\<close>

lemma run_cut:
  assumes "process_run L H X T cfg p ls q" "serving L T m cfg" "process_inv m p" "\<not> contains_token t (process_store p)" "never_drawn t ls"
  shows "\<not> contains_token t (process_store q) \<and> length (streams p) \<le> length (streams q) \<and>
    (\<forall>k < length (streams p). fst (streams p ! k) = t \<longrightarrow>
       fst (streams q ! k) = t \<and> cut_stream (lib_iter L) t (snd (streams p ! k)) (snd (streams q ! k))) \<and>
    (\<forall>k < length (streams q). length (streams p) \<le> k \<and> fst (streams q ! k) = t \<longrightarrow>
       (\<exists>s. cut_stream (lib_iter L) t (open_stream s) (snd (streams q ! k))))"
  using assms
proof (induction rule: process_run.induct)
  case run_start
  have "cut_stream (lib_iter L) t (snd (streams p ! k)) (snd (streams p ! k))" if "k < length (streams p)" for k
    using process_stream [OF run_start.prems(2) that] process_inv_store [OF run_start.prems(2)] run_start.prems(3)
    by (cases "streams p ! k") (simp add: cut_stream_refl)
  then show ?case using run_start.prems(3) by simp
next
  case (run_step ls q l q')
  have draw: "never_drawn t ls" "quiet t l" using run_step.prems(4) by (simp_all add: never_drawn_def)
  note IH = run_step.IH [OF run_step.prems(1-3) draw(1)]
  have inv: "process_inv m q" using process_inv_run [OF run_step.hyps(1) run_step.prems(1,2)] .
  note go = cut_stream_step [OF run_step.prems(1) inv run_step.hyps(2) draw(2)]
  have gone: "\<not> contains_token t (process_store q')" using step_cut [OF run_step.prems(1) inv run_step.hyps(2) _ draw(2)] IH by blast
  have len: "length (streams q) \<le> length (streams q')" using step_length [OF run_step.hyps(2)] .
  have old: "fst (streams q' ! k) = t \<and> cut_stream (lib_iter L) t st0 (snd (streams q' ! k))"
    if "k < length (streams q)" "fst (streams q ! k) = t" "cut_stream (lib_iter L) t st0 (snd (streams q ! k))" for k st0
    using go [OF that(1), of "snd (streams q ! k)" st0] that(2,3) by (cases "streams q ! k") auto
  have kept: "fst (streams q' ! k) = t \<and> cut_stream (lib_iter L) t (snd (streams p ! k)) (snd (streams q' ! k))"
    if "k < length (streams p)" "fst (streams p ! k) = t" for k
    using IH that by (intro old) auto
  have new: "\<exists>s. cut_stream (lib_iter L) t (open_stream s) (snd (streams q' ! k))"
    if k: "k < length (streams q')" "length (streams p) \<le> k" "fst (streams q' ! k) = t" for k
  proof (cases "k < length (streams q)")
    case True
    have "fst (streams q ! k) = fst (streams q' ! k)"
      using run_step.hyps(2) True by (cases rule: process_step.cases) (auto simp: share_store_def nth_append nth_list_update)
    then show ?thesis using old [OF True] IH k True by metis
  next
    case False
    with run_step.hyps(2) k(1) obtain t' where "streams q' ! k = (t', open_stream (process_store q))" "process_store q' = process_store q"
      by (cases rule: process_step.cases) (auto simp: nth_append less_Suc_eq)
    then have "cut_stream (lib_iter L) t (open_stream (process_store q)) (snd (streams q' ! k))"
      using process_inv_store [OF inv] gone chan_inv_open [of "process_store q"]
      by (auto intro!: cut_stream_refl) (simp_all add: open_stream_def)
    then show ?thesis by blast
  qed
  have "length (streams p) \<le> length (streams q')" using IH len by simp
  with gone show ?case by (intro conjI allI impI) (auto dest: kept new)
qed

lemma run_cut_delivered:
  assumes "process_run L H X T cfg p ls q" "serving L T m cfg" "process_inv m p" "\<not> contains_token t (process_store p)" "never_drawn t ls"
  shows "\<not> contains_token t (process_store q) \<and>
    (\<forall>k < length (streams p). fst (streams p ! k) = t \<longrightarrow>
       (\<exists>n. delivered (snd (streams q ! k)) = take n (delivered (snd (streams p ! k)) @ chan (snd (streams p ! k)) @
          in_flight (snd (streams p ! k)) @ [REVOKED_FRAME])) \<and>
       length (delivered (snd (streams q ! k))) \<le> length (delivered (snd (streams p ! k))) + CHANNEL_CAPACITY + 2) \<and>
    (\<forall>k < length (streams q). length (streams p) \<le> k \<and> fst (streams q ! k) = t \<longrightarrow>
       delivered (snd (streams q ! k)) \<in> {[], [REVOKED_FRAME]})"
proof -
  note cut = run_cut [OF assms]
  have "(\<exists>n. delivered (snd (streams q ! k)) = take n (delivered (snd (streams p ! k)) @ chan (snd (streams p ! k)) @
        in_flight (snd (streams p ! k)) @ [REVOKED_FRAME])) \<and>
      length (delivered (snd (streams q ! k))) \<le> length (delivered (snd (streams p ! k))) + CHANNEL_CAPACITY + 2"
    if k: "k < length (streams p)" "fst (streams p ! k) = t" for k
  proof -
    have "cut_stream (lib_iter L) t (snd (streams p ! k)) (snd (streams q ! k))" using cut k by simp
    from cut_stream_delivered [OF this] show ?thesis
      using in_flight_length [of "snd (streams p ! k)"] process_stream(1) [OF assms(3) k(1)]
      by (cases "streams p ! k") (auto simp: chan_inv_def)
  qed
  moreover have "delivered (snd (streams q ! k)) \<in> {[], [REVOKED_FRAME]}"
    if k: "k < length (streams q)" "length (streams p) \<le> k" "fst (streams q ! k) = t" for k
  proof -
    obtain s where "cut_stream (lib_iter L) t (open_stream s) (snd (streams q ! k))" using cut k by auto
    then obtain n where "delivered (snd (streams q ! k)) = take n [REVOKED_FRAME]"
      using cut_stream_delivered by (fastforce simp: open_stream_def in_flight_def)
    then show ?thesis by (cases n) auto
  qed
  ultimately show ?thesis using cut by simp
qed

lemma share_store_sel [simp]:
  "fst (share_store s ts) = fst ts" "delivered (snd (share_store s ts)) = delivered (snd ts)"
  "chan (snd (share_store s ts)) = chan (snd ts)" "in_flight (snd (share_store s ts)) = in_flight (snd ts)"
  by (simp_all add: share_store_def in_flight_def)

lemma serve_manage:
  assumes "route (msg_method msg) (msg_path msg) = Some Manage_Handler" "extract_manage X msg = Some mg"
  shows "serve L H X c i conn msg =
    (Manage_Reply (fst (manage_handler (lib_manage L) (lib_iter L) (app i) mg)),
     i\<lparr>app := snd (manage_handler (lib_manage L) (lib_iter L) (app i) mg)\<rparr>)"
  using assms by (simp add: serve_def add_client_pubkey_call_def dispatch_def Let_def case_prod_unfold split: option.splits)

lemma revoke_answers_true:
  assumes "iteration_of iter" "store_wf (members st)"
    "orchestrator_signed libs (orch_manage_pubkey (trust st)) env a" "nonce a \<notin> seen_nonces (members st)"
    "action a = ''revoke''" "revoke_target a = Some h" "get_by_token t (members st) = Some e" "member_hash e = h"
  shows "fst (manage_handler libs iter st env) = ok_json True"
proof -
  let ?s1 = "snd (note_nonce (nonce a) (members st))"
  have wf1: "store_wf ?s1" using assms(2) by (simp add: note_nonce_wf)
  have "\<exists>mem. hm_get (by_pubkey ?s1) (client_pubkey e) = Some mem \<and> stored_hash mem = h"
    using assms(7,8) unfolding get_by_token_iff [OF assms(2)] by auto
  then have "fst (revoke_by_member_hash iter h ?s1)" using revoke_true_iff [OF assms(1) wf1] by blast
  then show ?thesis
    using assms(4,5,6) by (simp add: manage_signed [OF assms(3)] manage_apply_def case_prod_unfold Let_def)
qed

text \<open>
  C1: a signed revoke silences the member in the whole process. When a booted process, in whatever state, serves the
  orchestrator's signed revoke of a member hash that the manifest gives to one key, the answer is that it was revoked, and from then on,
  however messages, relay tasks and clients interleave, as long as nothing draws the same token again: a bearer of the member is
  not valid; a client of a stream that was running receives at most what had passed its check before, at most
  \<open>CHANNEL_CAPACITY + 1\<close> frames, and the revocation frame; and a stream that opens late delivers at most the revocation frame.
\<close>

theorem revoke_silences_streams:
  assumes "libs_ok L" "digest_32 (lib_enroll L)" "mandatory_client_auth (x509 (lib_enroll L)) (boot_tls b)" "main_boot b = Return r"
    and run: "process_run L H X (boot_tls b) (boot_config r) (boot_process (boot_state r) env) ls0 p"
    and signed: "orchestrator_signed (lib_manage L) (orch_manage_pubkey (trust (app (served_instance p)))) mg a"
      "nonce a \<notin> seen_nonces (process_store p)" "action a = ''revoke''" "revoke_target a = Some h"
    and one: "\<And>pk pk'. (pk, h) \<in> manifest_pairs (cohort (boot_state r)) \<Longrightarrow> (pk', h) \<in> manifest_pairs (cohort (boot_state r)) \<Longrightarrow> pk = pk'"
    and was: "get_by_token t (process_store p) = Some e" "member_hash e = h"
    and conn: "mtls_accept (x509 (lib_enroll L)) (boot_tls b) (boot_config r) sock = Some conn" "call_ok c (app (served_instance p))"
    and msg: "route (msg_method msg) (msg_path msg) = Some Manage_Handler" "extract_manage X msg = Some mg"
      "serve L H X c (served_instance p) conn msg = (rep, j)"
    and later: "process_run L H X (boot_tls b) (boot_config r)
        (p\<lparr>served_instance := j, streams := map (share_store (members (app j))) (streams p)\<rparr>) ls q" "never_drawn t ls"
  shows "rep = Manage_Reply (ok_json True) \<and> \<not> contains_token t (process_store q) \<and>
    (\<forall>k < length (streams p). fst (streams p ! k) = t \<longrightarrow>
       (\<exists>n. delivered (snd (streams q ! k)) = take n (delivered (snd (streams p ! k)) @ chan (snd (streams p ! k)) @
          in_flight (snd (streams p ! k)) @ [REVOKED_FRAME])) \<and>
       length (delivered (snd (streams q ! k))) \<le> length (delivered (snd (streams p ! k))) + CHANNEL_CAPACITY + 2) \<and>
    (\<forall>k < length (streams q). length (streams p) \<le> k \<and> fst (streams q ! k) = t \<longrightarrow>
       delivered (snd (streams q ! k)) \<in> {[], [REVOKED_FRAME]})"
proof -
  let ?m = "cohort (boot_state r)" and ?st = "app (served_instance p)"
  let ?p1 = "p\<lparr>served_instance := j, streams := map (share_store (members (app j))) (streams p)\<rparr>"
  note srv = booted_serving [OF assms(1-4)]
  have inv: "process_inv ?m p" using process_inv_run [OF run srv boot_process_inv] .
  have srvinv: "server_inv ?m (served_instance p)" using inv by (simp add: process_inv_def)
  have it: "iteration_of (lib_iter L)" using assms(1) by (simp add: libs_ok_def)
  note wf = server_invD(1) [OF srvinv] and listed = server_invD(3) [OF srvinv]
  have j: "rep = Manage_Reply (fst (manage_handler (lib_manage L) (lib_iter L) ?st mg))"
    "app j = snd (manage_handler (lib_manage L) (lib_iter L) ?st mg)"
    using msg(3) unfolding serve_manage [OF msg(1,2)] by auto
  have rep: "rep = Manage_Reply (ok_json True)" using revoke_answers_true [OF it wf signed was] j(1) by simp
  have unique: "pk = pk'" if "hm_get (by_pubkey (members ?st)) pk = Some mm" "hm_get (by_pubkey (members ?st)) pk' = Some mm'"
      "stored_hash mm = h" "stored_hash mm' = h" for pk pk' mm mm'
    using one listed that unfolding members_listed_def by metis
  have gone: "\<not> contains_token t (members (app j))"
    unfolding j(2) using revoked_token_gone [OF it wf signed was] unique by blast
  have "process_step L H X (boot_tls b) (boot_config r) p (Net (call_csprng c)) ?p1"
    by (rule process_step.net, rule network_event.serve_message [OF conn msg(3)])
  then have inv1: "process_inv ?m ?p1" using process_inv_step [OF srv inv] by blast
  have "\<not> contains_token t (process_store ?p1)" using gone by simp
  from run_cut_delivered [OF later(1) srv inv1 this later(2)] show ?thesis using rep by simp
qed

subsection \<open>A process that enrols, streams and revokes\<close>

definition srv_store :: inner where "srv_store = members (app srv_enrolled)"

definition srv_opened :: stream where "srv_opened = open_stream srv_store"

definition srv_arrived :: stream where
  "srv_arrived = srv_opened\<lparr>backend := [Data [1]], arrived := [Data [1]]\<rparr>"

definition srv_sending :: stream where
  "srv_sending = srv_arrived\<lparr>relay_task := Sending [1] srv_store, backend := []\<rparr>"

definition srv_sent :: stream where
  "srv_sent = note_event (Data [1]) srv_store True (srv_sending\<lparr>relay_task := Awaiting_Frame, chan := [[1]], sent := [[1]]\<rparr>)"

definition srv_received :: stream where
  "srv_received = srv_sent\<lparr>chan := [], delivered := [[1]]\<rparr>"

definition srv_process :: "stream \<Rightarrow> (nat, nat, string set) process" where
  "srv_process st = \<lparr>served_instance = srv_enrolled, awaiting = [], streams = [(srv_token, st)]\<rparr>"

abbreviation srv_run :: "(nat, nat, string set) process \<Rightarrow> process_label list \<Rightarrow> (nat, nat, string set) process \<Rightarrow> bool" where
  "srv_run \<equiv> process_run srv_libs srv_http srv_axum (boot_tls srv_boot) (boot_config srv_booted)"

lemma srv_chat:
  "\<exists>out. serve srv_libs srv_http srv_axum srv_call srv_enrolled srv_conn (post ''/v1/chat/completions'') = (Chat_Reply out, srv_enrolled) \<and>
     relay_for out = Some srv_token"
proof -
  have bear: "bearer srv_http (\<lambda>_. Some []) = Some srv_token"
    by (simp add: bearer_def srv_http_def strip_prefix_def)
  have "relay_for (chat_handler srv_http (app srv_enrolled) (\<lambda>_. Some []) [1]) = Some srv_token"
    unfolding chat_handler_def bear using srv_enrolled_token(1) by (simp add: srv_http_def)
  then show ?thesis
    by (simp add: serve_def add_client_pubkey_call_def srv_conn_def dispatch_def route_def build_router_def post_def srv_axum_def)
qed

lemma srv_run_opened:
  "srv_run (boot_process (boot_state srv_booted) \<lparr>SEQ = 0, files = {}\<rparr>) [Net (call_csprng srv_call), Chat, Opening] (srv_process srv_opened)"
proof -
  let ?p0 = "boot_process (boot_state srv_booted) \<lparr>SEQ = 0, files = {}\<rparr>"
  let ?p1 = "\<lparr>served_instance = srv_enrolled, awaiting = [], streams = []\<rparr>"
  let ?p2 = "\<lparr>served_instance = srv_enrolled, awaiting = [srv_token], streams = []\<rparr>"
  let ?step = "process_step srv_libs srv_http srv_axum (boot_tls srv_boot) (boot_config srv_booted)"
  have "network_event srv_libs srv_http srv_axum (boot_tls srv_boot) (boot_config srv_booted) (call_csprng srv_call) srv_start srv_enrolled"
    by (rule network_event.serve_message [OF srv_accepts srv_call_ok]) (simp add: srv_enrolled_def prod_eq_iff)
  then have 1: "?step ?p0 (Net (call_csprng srv_call)) ?p1"
    using process_step.net [of srv_libs srv_http srv_axum _ _ _ ?p0 srv_enrolled] by (simp add: boot_process_def srv_start_def)
  obtain out where "serve srv_libs srv_http srv_axum srv_call (served_instance ?p1) srv_conn (post ''/v1/chat/completions'') =
      (Chat_Reply out, srv_enrolled)" "relay_for out = Some srv_token"
    using srv_chat by auto
  from process_step.chat [OF srv_accepts this] have 2: "?step ?p1 Chat ?p2" by simp
  have 3: "?step ?p2 Opening (srv_process srv_opened)"
    using process_step.open_chat [of ?p2 "[]" srv_token "[]" srv_libs srv_http srv_axum]
    by (simp add: srv_process_def srv_opened_def srv_store_def)
  show ?thesis
    using process_run.run_step [OF process_run.run_step [OF process_run.run_step [OF process_run.run_start 1] 2] 3] by simp
qed

lemma srv_run_received:
  "srv_run (srv_process srv_opened) [Streaming 0, Streaming 0, Streaming 0, Streaming 0] (srv_process srv_received)"
proof -
  let ?step = "process_step srv_libs srv_http srv_axum (boot_tls srv_boot) (boot_config srv_booted)"
  have tok: "contains_token srv_token srv_store" using srv_enrolled_token(1) by (simp add: srv_store_def)
  have task: "?step (srv_process st) (Streaming 0) (srv_process st')" if "task_step srv_token st st'" for st st'
    using process_step.relay [of 0 "srv_process st" srv_token st st'] that by (simp add: srv_process_def)
  have "backend_step srv_opened srv_arrived"
    using backend_step.frame_arrives [of srv_opened "Data [1]"]
    by (simp add: srv_opened_def open_stream_def srv_arrived_def)
  then have 0: "?step (srv_process srv_opened) (Streaming 0) (srv_process srv_arrived)"
    using process_step.upstream [of 0 "srv_process srv_opened" srv_token srv_opened srv_arrived] by (simp add: srv_process_def)
  have "task_step srv_token srv_arrived srv_sending"
    using task_step.check_ok [of srv_arrived "[1]" "[]" srv_token] tok
    by (simp add: srv_arrived_def srv_opened_def open_stream_def srv_sending_def)
  note 1 = task [OF this]
  have "task_step srv_token srv_sending srv_sent"
    using task_step.send_data [of srv_sending "[1]" srv_store srv_token]
    by (simp add: srv_sending_def srv_arrived_def srv_opened_def open_stream_def srv_sent_def CHANNEL_CAPACITY_def)
  note 2 = task [OF this]
  have "client_step srv_sent srv_received"
    using client_step.take_frame [of srv_sent "[1]" "[]"]
    by (simp add: srv_sending_def srv_arrived_def srv_opened_def open_stream_def srv_sent_def srv_received_def note_event_def)
  then have 3: "?step (srv_process srv_sent) (Streaming 0) (srv_process srv_received)"
    using process_step.read_body [of 0 "srv_process srv_sent" srv_token srv_sent srv_received] by (simp add: srv_process_def)
  show ?thesis
    using process_run.run_step [OF process_run.run_step [OF process_run.run_step [OF process_run.run_step [OF process_run.run_start 0] 1] 2] 3] by simp
qed

lemma process_run_trans:
  "process_run L H X T cfg q ls' q' \<Longrightarrow> process_run L H X T cfg p ls q \<Longrightarrow> process_run L H X T cfg p (ls @ ls') q'"
proof (induction rule: process_run.induct)
  case (run_step ls' q1 l q2)
  then show ?case using process_run.run_step [of L H X T cfg p "ls @ ls'" q1 l q2] by simp
qed simp

lemmas srv_process_hyps = srv_libs_ok srv_auth srv_boots process_run_trans [OF srv_run_received srv_run_opened]

theorem streams_only_for_members_witness:
  "delivered srv_received = [[1]] \<and>
   (\<exists>ev \<in> set (checked srv_received). \<exists>e. get_by_token srv_token (store_at_check ev) = Some e \<and>
      (client_pubkey e, member_hash e) \<in> manifest_pairs (cohort (boot_state srv_booted)))"
proof -
  have in_stream: "(srv_token, srv_received) \<in> set (streams (srv_process srv_received))" "[1] \<in> set (delivered srv_received)"
    by (simp_all add: srv_process_def srv_received_def)
  have "[1] \<noteq> REVOKED_FRAME" by (simp add: REVOKED_FRAME_def as_bytes_def)
  then show ?thesis
    using streams_only_for_members [OF srv_process_hyps in_stream] by (auto simp: srv_received_def)
qed

lemma srv_bearer:
  obtains e where "get_by_token srv_token srv_store = Some e" "member_hash e = APPLE_ROOT_CA_G3_SHA256"
proof -
  have inv: "process_inv (cohort (boot_state srv_booted)) (srv_process srv_received)"
    using process_inv_run [OF srv_process_hyps(5) booted_serving [OF srv_process_hyps(1-4)] boot_process_inv] .
  then have "server_inv (cohort (boot_state srv_booted)) srv_enrolled" by (simp add: process_inv_def srv_process_def)
  from server_inv_bearer [OF this srv_enrolled_token(1)]
  have "member_bearer (cohort (boot_state srv_booted)) srv_token srv_store" by (simp add: srv_store_def)
  then show thesis using that by (auto simp: member_bearer_def manifest_pairs_def srv_state(1) hex_decode_encode)
qed

theorem revoke_silences_streams_witness:
  "\<exists>rep j. serve srv_libs srv_http srv_axum \<lparr>call_now = 0, call_csprng = None\<rparr> srv_enrolled srv_conn (post ''/manage'') = (rep, j) \<and>
     rep = Manage_Reply (ok_json True) \<and> contains_token srv_token (members (app srv_enrolled)) \<and> \<not> contains_token srv_token (members (app j))"
proof -
  let ?c = "\<lparr>call_now = 0, call_csprng = None\<rparr>" and ?p = "srv_process srv_received"
  obtain rep j where run: "serve srv_libs srv_http srv_axum ?c (served_instance ?p) srv_conn (post ''/manage'') = (rep, j)" by fastforce
  obtain e where e: "get_by_token srv_token (process_store ?p) = Some e" "member_hash e = APPLE_ROOT_CA_G3_SHA256"
    using srv_bearer by (auto simp: srv_process_def srv_store_def)
  have signed: "orchestrator_signed (lib_manage srv_libs) (orch_manage_pubkey (trust (app (served_instance ?p)))) demo_envelope srv_action"
    using demo_signed by (auto simp: orchestrator_signed_def srv_libs_def demo_manage_libs_def)
  have rev: "nonce srv_action \<notin> seen_nonces (process_store ?p)" "action srv_action = ''revoke''"
    "revoke_target srv_action = Some APPLE_ROOT_CA_G3_SHA256"
    using srv_enrolled_token(2)
    by (simp_all add: srv_process_def srv_action_def revoke_target_def hex_decode_encode) (simp add: APPLE_ROOT_CA_G3_SHA256_def)
  have one: "pk = pk'" if "(pk, APPLE_ROOT_CA_G3_SHA256) \<in> manifest_pairs (cohort (boot_state srv_booted))"
      "(pk', APPLE_ROOT_CA_G3_SHA256) \<in> manifest_pairs (cohort (boot_state srv_booted))" for pk pk'
    using that by (simp add: manifest_pairs_def srv_state(1))
  have call: "call_ok ?c (app (served_instance ?p))" by (simp add: call_ok_def fresh_random_def)
  have msg: "route (msg_method (post ''/manage'')) (msg_path (post ''/manage'')) = Some Manage_Handler"
    "extract_manage srv_axum (post ''/manage'') = Some demo_envelope"
    by (simp_all add: post_def route_def build_router_def srv_axum_def)
  show ?thesis
    using revoke_silences_streams [OF srv_process_hyps signed rev one e srv_accepts call msg run process_run.run_start]
      run srv_enrolled_token(1) by (auto simp: never_drawn_def srv_process_def)
qed

end
