(* ===== verification/Quote_Tasks.thy ===== *)
theory Quote_Tasks
  imports Attestation
begin

text \<open>
  Concurrent quote fetches. \<^verbatim>\<open>tdx_quote\<close> of \<^verbatim>\<open>src/src/attestation.rs\<close> runs on blocking threads, so the file operations of several
  requests interleave. Each request is a task that goes through the function's operations one at a time, in the
  order of the source: take a counter value, create the entry, write the challenge, read the quote, remove the entry.
  \<open>quote_advance\<close> is one operation of one task, \<open>quote_step\<close> lets any task of the process perform its next one.

  The comment on \<^verbatim>\<open>tdx_quote\<close> says why each request has its own entry: sharing one would cross-bind reports. Shown here: in no
  interleaving does a request get the quote of another one's challenge, and when all have finished the only entries that
  were not there before are those whose removal failed (the code ignores that error). \<open>configfs_tsm\<close> is what the kernel
  documents of its report interface.
\<close>

datatype quote_phase =
    Quote_Start
  | Quote_Named u64
  | Quote_Made u64
  | Quote_Written u64
  | Quote_Removing u64 "bytes option"
  | Quote_Done u64 "bytes option" bool

text \<open>
  The flag of \<open>Quote_Done\<close> is a history variable: the entry was made and \<^verbatim>\<open>remove_dir\<close> failed, so it was left
  behind. The code drops that error (\<^verbatim>\<open>let _ =\<close>), and the request's result does not depend on it.
\<close>

fun quote_advance ::
  "'f fs_lib \<Rightarrow> u32 \<Rightarrow> bytes \<Rightarrow> quote_phase \<times> u64 \<times> 'f \<Rightarrow> (quote_phase \<times> u64 \<times> 'f) option" where
  "quote_advance fs pid report_data (Quote_Start, seq, f) = Some (Quote_Named seq, seq + 1, f)"
| "quote_advance fs pid report_data (Quote_Named n, seq, f) =
     (let (made, f') = create_dir fs (report_dir pid n) f
      in Some (if made then Quote_Made n else Quote_Done n None False, seq, f'))"
| "quote_advance fs pid report_data (Quote_Made n, seq, f) =
     (let (written, f') = write_file fs (path_join (report_dir pid n) ''inblob'') report_data f
      in Some (if written then Quote_Written n else Quote_Removing n None, seq, f'))"
| "quote_advance fs pid report_data (Quote_Written n, seq, f) =
     (let (r, f') = read_file fs (path_join (report_dir pid n) ''outblob'') f
      in Some (Quote_Removing n (case r of None \<Rightarrow> None | Some quote \<Rightarrow> if quote = [] then None else Some quote), seq, f'))"
| "quote_advance fs pid report_data (Quote_Removing n result, seq, f) =
     (let (removed, f') = remove_dir fs (report_dir pid n) f in Some (Quote_Done n result (\<not> removed), seq, f'))"
| "quote_advance fs pid report_data (Quote_Done n result left, seq, f) = None"

record 'f quote_world =
  quote_seq :: u64
  quote_files :: 'f
  quote_tasks :: "(bytes \<times> quote_phase) list"
  quote_order :: "nat list"

text \<open>\<open>quote_order\<close> is a history variable: the tasks in the order in which they took their counter values.\<close>

definition quote_world_start :: "u64 \<Rightarrow> 'f \<Rightarrow> bytes list \<Rightarrow> 'f quote_world" where
  "quote_world_start seq f reqs =
     \<lparr>quote_seq = seq, quote_files = f, quote_tasks = map (\<lambda>r. (r, Quote_Start)) reqs, quote_order = []\<rparr>"

inductive quote_step :: "'f fs_lib \<Rightarrow> u32 \<Rightarrow> 'f quote_world \<Rightarrow> 'f quote_world \<Rightarrow> bool" for fs pid where
  quote_step: "i < length (quote_tasks w) \<Longrightarrow> quote_tasks w ! i = (report_data, ph) \<Longrightarrow>
    quote_advance fs pid report_data (ph, quote_seq w, quote_files w) = Some (ph', seq', f') \<Longrightarrow>
    quote_step fs pid w \<lparr>quote_seq = seq', quote_files = f', quote_tasks = (quote_tasks w)[i := (report_data, ph')],
      quote_order = (if ph = Quote_Start then quote_order w @ [i] else quote_order w)\<rparr>"

subsection \<open>One task alone is the function\<close>

fun quote_alone :: "nat \<Rightarrow> 'f fs_lib \<Rightarrow> u32 \<Rightarrow> bytes \<Rightarrow> quote_phase \<times> u64 \<times> 'f \<Rightarrow> quote_phase \<times> u64 \<times> 'f" where
  "quote_alone 0 fs pid report_data s = s"
| "quote_alone (Suc k) fs pid report_data s =
     (case quote_advance fs pid report_data s of None \<Rightarrow> s | Some s' \<Rightarrow> quote_alone k fs pid report_data s')"

lemma quote_alone_done [simp]: "quote_alone k fs pid report_data (Quote_Done n r left, seq, f) = (Quote_Done n r left, seq, f)"
  by (cases k) simp_all

lemma quote_alone_tdx_quote:
  "\<exists>left. quote_alone 5 fs pid report_data (Quote_Start, seq, f) =
     (let (r, seq', f') = tdx_quote fs pid report_data seq f in (Quote_Done seq r left, seq', f'))"
  by (auto simp: numeral_eq_Suc tdx_quote_def Let_def case_prod_unfold split: option.splits)

subsection \<open>The kernel's report interface\<close>

text \<open>
  \<open>view\<close> shows of a file system its report entries and the challenge each holds. Creating fails for an entry that
  exists; a write to \<^verbatim>\<open>inblob\<close> sets the entry's challenge; a read of \<^verbatim>\<open>outblob\<close> yields a quote over the
  challenge that the entry holds (\<open>quoted\<close>); a removal that succeeds removes the entry. What a failed write or a failed removal
  does to its own entry is left open. No operation touches other entries.
\<close>

definition configfs_tsm ::
  "'f fs_lib \<Rightarrow> ('f \<Rightarrow> string \<Rightarrow> bytes option option) \<Rightarrow> (bytes \<Rightarrow> bytes \<Rightarrow> bool) \<Rightarrow> bool" where
  "configfs_tsm fs view quoted \<longleftrightarrow>
     (\<forall>d f f'. create_dir fs d f = (True, f') \<longrightarrow> view f d = None \<and> view f' = (view f)(d := Some None)) \<and>
     (\<forall>d f f'. create_dir fs d f = (False, f') \<longrightarrow> view f' = view f) \<and>
     (\<forall>d b f f'. write_file fs (path_join d ''inblob'') b f = (True, f') \<longrightarrow> view f' = (view f)(d := Some (Some b))) \<and>
     (\<forall>d b f f'. write_file fs (path_join d ''inblob'') b f = (False, f') \<longrightarrow> (\<forall>d'. d' \<noteq> d \<longrightarrow> view f' d' = view f d')) \<and>
     (\<forall>d f r f'. read_file fs (path_join d ''outblob'') f = (r, f') \<longrightarrow> view f' = view f \<and>
        (\<forall>b q. view f d = Some (Some b) \<and> r = Some q \<and> q \<noteq> [] \<longrightarrow> quoted b q)) \<and>
     (\<forall>d f f'. remove_dir fs d f = (True, f') \<longrightarrow> view f' = (view f)(d := None)) \<and>
     (\<forall>d f f'. remove_dir fs d f = (False, f') \<longrightarrow> (\<forall>d'. d' \<noteq> d \<longrightarrow> view f' d' = view f d'))"

lemma configfs_tsmD:
  assumes "configfs_tsm fs view quoted"
  shows "create_dir fs d f = (True, f') \<Longrightarrow> view f d = None \<and> view f' = (view f)(d := Some None)"
    "create_dir fs d f = (False, f') \<Longrightarrow> view f' = view f"
    "write_file fs (path_join d ''inblob'') b f = (True, f') \<Longrightarrow> view f' = (view f)(d := Some (Some b))"
    "write_file fs (path_join d ''inblob'') b f = (False, f') \<Longrightarrow> d' \<noteq> d \<Longrightarrow> view f' d' = view f d'"
    "read_file fs (path_join d ''outblob'') f = (r, f') \<Longrightarrow> view f' = view f"
    "read_file fs (path_join d ''outblob'') f = (Some q, f') \<Longrightarrow> view f d = Some (Some b) \<Longrightarrow> q \<noteq> [] \<Longrightarrow> quoted b q"
    "remove_dir fs d f = (True, f') \<Longrightarrow> view f' = (view f)(d := None)"
    "remove_dir fs d f = (False, f') \<Longrightarrow> d' \<noteq> d \<Longrightarrow> view f' d' = view f d'"
proof -
  note laws = assms [unfolded configfs_tsm_def]
  note laws = laws [THEN conjunct1] laws [THEN conjunct2, THEN conjunct1] laws [THEN conjunct2, THEN conjunct2, THEN conjunct1]
    laws [THEN conjunct2, THEN conjunct2, THEN conjunct2, THEN conjunct1]
    laws [THEN conjunct2, THEN conjunct2, THEN conjunct2, THEN conjunct2, THEN conjunct1]
    laws [THEN conjunct2, THEN conjunct2, THEN conjunct2, THEN conjunct2, THEN conjunct2, THEN conjunct1]
    laws [THEN conjunct2, THEN conjunct2, THEN conjunct2, THEN conjunct2, THEN conjunct2, THEN conjunct2]
  show "create_dir fs d f = (True, f') \<Longrightarrow> view f d = None \<and> view f' = (view f)(d := Some None)" using laws(1) by metis
  show "create_dir fs d f = (False, f') \<Longrightarrow> view f' = view f" using laws(2) by metis
  show "write_file fs (path_join d ''inblob'') b f = (True, f') \<Longrightarrow> view f' = (view f)(d := Some (Some b))" using laws(3) by metis
  show "write_file fs (path_join d ''inblob'') b f = (False, f') \<Longrightarrow> d' \<noteq> d \<Longrightarrow> view f' d' = view f d'" using laws(4) by metis
  show "read_file fs (path_join d ''outblob'') f = (r, f') \<Longrightarrow> view f' = view f" using laws(5) by metis
  show "read_file fs (path_join d ''outblob'') f = (Some q, f') \<Longrightarrow> view f d = Some (Some b) \<Longrightarrow> q \<noteq> [] \<Longrightarrow> quoted b q"
    using laws(5) by metis
  show "remove_dir fs d f = (True, f') \<Longrightarrow> view f' = (view f)(d := None)" using laws(6) by metis
  show "remove_dir fs d f = (False, f') \<Longrightarrow> d' \<noteq> d \<Longrightarrow> view f' d' = view f d'" using laws(7) by metis
qed

subsection \<open>The invariant\<close>

fun counter :: "quote_phase \<Rightarrow> u64" where
  "counter Quote_Start = 0"
| "counter (Quote_Named n) = n"
| "counter (Quote_Made n) = n"
| "counter (Quote_Written n) = n"
| "counter (Quote_Removing n r) = n"
| "counter (Quote_Done n r left) = n"

text \<open>The task may have an entry in the file system.\<close>

fun holding :: "quote_phase \<Rightarrow> bool" where
  "holding (Quote_Made n) = True"
| "holding (Quote_Written n) = True"
| "holding (Quote_Removing n r) = True"
| "holding (Quote_Done n r left) = left"
| "holding (Quote_Named n) = False"
| "holding Quote_Start = False"

definition result_ok :: "(bytes \<Rightarrow> bytes \<Rightarrow> bool) \<Rightarrow> bytes \<Rightarrow> bytes option \<Rightarrow> bool" where
  "result_ok quoted report_data r \<longleftrightarrow> (\<forall>q. r = Some q \<longrightarrow> q \<noteq> [] \<and> quoted report_data q)"

fun phase_ok :: "(bytes \<Rightarrow> bytes \<Rightarrow> bool) \<Rightarrow> u32 \<Rightarrow> (string \<Rightarrow> bytes option option) \<Rightarrow> bytes \<Rightarrow> quote_phase \<Rightarrow> bool" where
  "phase_ok quoted pid v report_data (Quote_Written n) \<longleftrightarrow> v (report_dir pid n) = Some (Some report_data)"
| "phase_ok quoted pid v report_data (Quote_Removing n r) \<longleftrightarrow> result_ok quoted report_data r"
| "phase_ok quoted pid v report_data (Quote_Done n r left) \<longleftrightarrow> result_ok quoted report_data r"
| "phase_ok quoted pid v report_data _ \<longleftrightarrow> True"

abbreviation phase_of :: "'f quote_world \<Rightarrow> nat \<Rightarrow> quote_phase" where
  "phase_of w i \<equiv> snd (quote_tasks w ! i)"

definition order_inv :: "u64 \<Rightarrow> bytes list \<Rightarrow> 'f quote_world \<Rightarrow> bool" where
  "order_inv seq0 reqs w \<longleftrightarrow>
     map fst (quote_tasks w) = reqs \<and> distinct (quote_order w) \<and>
     (\<forall>i. i \<in> set (quote_order w) \<longleftrightarrow> i < length reqs \<and> phase_of w i \<noteq> Quote_Start) \<and>
     quote_seq w = seq0 + word_of_nat (length (quote_order w)) \<and>
     (\<forall>j < length (quote_order w). counter (phase_of w (quote_order w ! j)) = seq0 + word_of_nat j)"

definition files_inv ::
  "(bytes \<Rightarrow> bytes \<Rightarrow> bool) \<Rightarrow> u32 \<Rightarrow> (string \<Rightarrow> bytes option option) \<Rightarrow> (string \<Rightarrow> bytes option option) \<Rightarrow>
   (bytes \<times> quote_phase) list \<Rightarrow> bool" where
  "files_inv quoted pid v0 v tasks \<longleftrightarrow>
     (\<forall>i < length tasks. phase_ok quoted pid v (fst (tasks ! i)) (snd (tasks ! i)) \<and>
        (holding (snd (tasks ! i)) \<longrightarrow> v0 (report_dir pid (counter (snd (tasks ! i)))) = None)) \<and>
     (\<forall>d. (\<forall>i < length tasks. holding (snd (tasks ! i)) \<longrightarrow> d \<noteq> report_dir pid (counter (snd (tasks ! i)))) \<longrightarrow> v d = v0 d)"

text \<open>At most \<open>2 ^ 64\<close> requests: no two tasks that are under way have the same counter value.\<close>

lemma counters_distinct:
  assumes inv: "order_inv seq0 reqs w" and few: "length reqs \<le> 2 ^ 64"
    and ij: "i < length reqs" "j < length reqs" "phase_of w i \<noteq> Quote_Start" "phase_of w j \<noteq> Quote_Start"
    and eq: "counter (phase_of w i) = counter (phase_of w j)"
  shows "i = j"
proof -
  have "i \<in> set (quote_order w)" "j \<in> set (quote_order w)" using inv ij by (auto simp: order_inv_def)
  then obtain k l where kl: "k < length (quote_order w)" "quote_order w ! k = i" "l < length (quote_order w)" "quote_order w ! l = j"
    by (auto simp: in_set_conv_nth)
  have "set (quote_order w) \<subseteq> {..<length reqs}" using inv by (auto simp: order_inv_def)
  then have "card (set (quote_order w)) \<le> card {..<length reqs}" by (rule card_mono [OF finite_lessThan])
  moreover have "card (set (quote_order w)) = length (quote_order w)" using inv by (intro distinct_card) (simp add: order_inv_def)
  ultimately have "length (quote_order w) \<le> 2 ^ 64" using few by simp
  then have small: "k < 2 ^ 64" "l < 2 ^ 64" using kl by simp_all
  have count: "counter (phase_of w (quote_order w ! j)) = seq0 + word_of_nat j" if "j < length (quote_order w)" for j
    using inv that by (simp add: order_inv_def)
  have "seq0 + word_of_nat k = seq0 + (word_of_nat l :: u64)" using count [OF kl(1)] count [OF kl(3)] kl(2,4) eq by simp
  then have "(word_of_nat k :: u64) = word_of_nat l" by simp
  then have "k = l" using small by (simp add: word_of_nat_eq_iff take_bit_nat_eq_self)
  then show ?thesis using kl by simp
qed

text \<open>A step of one task that changes the file system at most at its own entry.\<close>

lemma files_inv_update:
  assumes inv: "files_inv quoted pid v0 v tasks" and i: "i < length tasks" "tasks ! i = (report_data, ph)"
    and own: "counter ph' = counter ph" "\<And>d. d \<noteq> report_dir pid (counter ph) \<Longrightarrow> v' d = v d"
    and others: "\<And>j. j < length tasks \<Longrightarrow> j \<noteq> i \<Longrightarrow> snd (tasks ! j) \<noteq> Quote_Start \<Longrightarrow>
      report_dir pid (counter (snd (tasks ! j))) \<noteq> report_dir pid (counter ph)"
    and now: "phase_ok quoted pid v' report_data ph'"
      "if holding ph' then v0 (report_dir pid (counter ph)) = None else v' (report_dir pid (counter ph)) = v0 (report_dir pid (counter ph))"
  shows "files_inv quoted pid v0 v' (tasks[i := (report_data, ph')])"
proof -
  have *: "phase_ok quoted pid v' (fst (tasks ! j)) (snd (tasks ! j))" if j: "j < length tasks" "j \<noteq> i" for j
  proof -
    have "phase_ok quoted pid v (fst (tasks ! j)) (snd (tasks ! j))" using inv j by (simp add: files_inv_def)
    then show ?thesis using own(2) others [OF j] by (cases "snd (tasks ! j)") auto
  qed
  have "v' d = v0 d" if d: "\<forall>j < length tasks. holding (snd (tasks[i := (report_data, ph')] ! j)) \<longrightarrow>
      d \<noteq> report_dir pid (counter (snd (tasks[i := (report_data, ph')] ! j)))" for d
  proof (cases "d = report_dir pid (counter ph)")
    case True
    then show ?thesis using d i(1) now(2) own(1) by (auto split: if_splits)
  next
    case False
    then have "\<forall>j < length tasks. holding (snd (tasks ! j)) \<longrightarrow> d \<noteq> report_dir pid (counter (snd (tasks ! j)))"
      using d i by (metis nth_list_update_neq snd_conv)
    then show ?thesis using inv own(2) [OF False] by (simp add: files_inv_def)
  qed
  moreover have "holding (snd (tasks ! j)) \<longrightarrow> v0 (report_dir pid (counter (snd (tasks ! j)))) = None" if "j < length tasks" for j
    using inv that by (simp add: files_inv_def)
  ultimately show ?thesis
    using * now own(1) i by (auto simp: files_inv_def nth_list_update)
qed

text \<open>While a task holds no entry, its entry is as it was at the start.\<close>

lemma files_inv_unheld:
  assumes "files_inv quoted pid v0 v tasks" "i < length tasks" "\<not> holding (snd (tasks ! i))"
    "\<And>j. j < length tasks \<Longrightarrow> j \<noteq> i \<Longrightarrow> snd (tasks ! j) \<noteq> Quote_Start \<Longrightarrow> report_dir pid (counter (snd (tasks ! j))) \<noteq> d"
  shows "v d = v0 d"
proof -
  have "\<forall>j < length tasks. holding (snd (tasks ! j)) \<longrightarrow> d \<noteq> report_dir pid (counter (snd (tasks ! j)))"
    using assms(3,4) by (metis holding.simps(6))
  then show ?thesis using assms(1) by (simp add: files_inv_def)
qed

definition quotes_inv ::
  "'f fs_lib \<Rightarrow> ('f \<Rightarrow> string \<Rightarrow> bytes option option) \<Rightarrow> (bytes \<Rightarrow> bytes \<Rightarrow> bool) \<Rightarrow> u32 \<Rightarrow> u64 \<Rightarrow> 'f \<Rightarrow> bytes list \<Rightarrow>
   'f quote_world \<Rightarrow> bool" where
  "quotes_inv fs view quoted pid seq0 f0 reqs w \<longleftrightarrow>
     order_inv seq0 reqs w \<and> files_inv quoted pid (view f0) (view (quote_files w)) (quote_tasks w)"

text \<open>The steps of a task after it has taken its counter value.\<close>

lemma advance_started:
  assumes tsm: "configfs_tsm fs view quoted" and ph: "ph \<noteq> Quote_Start"
    and adv: "quote_advance fs pid report_data (ph, seq, f) = Some (ph', seq', f')"
    and ok: "phase_ok quoted pid (view f) report_data ph"
    and held: "holding ph \<Longrightarrow> v0 (report_dir pid (counter ph)) = None"
    and unheld: "\<not> holding ph \<Longrightarrow> view f (report_dir pid (counter ph)) = v0 (report_dir pid (counter ph))"
  shows "seq' = seq \<and> ph' \<noteq> Quote_Start \<and> counter ph' = counter ph \<and>
    (\<forall>d. d \<noteq> report_dir pid (counter ph) \<longrightarrow> view f' d = view f d) \<and> phase_ok quoted pid (view f') report_data ph' \<and>
    (if holding ph' then v0 (report_dir pid (counter ph)) = None
     else view f' (report_dir pid (counter ph)) = v0 (report_dir pid (counter ph)))"
  using assms(2-)
proof (cases ph)
  case (Quote_Named n)
  obtain made f1 where c: "create_dir fs (report_dir pid n) f = (made, f1)" by fastforce
  then show ?thesis
    using Quote_Named adv unheld configfs_tsmD(1,2) [OF tsm, of "report_dir pid n" f f1]
    by (cases made) (auto simp: result_ok_def)
next
  case (Quote_Made n)
  obtain written f1 where c: "write_file fs (path_join (report_dir pid n) ''inblob'') report_data f = (written, f1)" by fastforce
  then show ?thesis
    using Quote_Made adv held configfs_tsmD(3,4) [OF tsm, of "report_dir pid n" report_data f f1]
    by (cases written) (auto simp: result_ok_def)
next
  case (Quote_Written n)
  obtain r f1 where c: "read_file fs (path_join (report_dir pid n) ''outblob'') f = (r, f1)" by fastforce
  then show ?thesis
    using Quote_Written adv held ok configfs_tsmD(5) [OF tsm c] configfs_tsmD(6) [OF tsm, of "report_dir pid n" f _ f1 report_data]
    by (auto simp: result_ok_def split: option.splits)
next
  case (Quote_Removing n r)
  obtain done' f1 where c: "remove_dir fs (report_dir pid n) f = (done', f1)" by fastforce
  then show ?thesis
    using Quote_Removing adv held ok configfs_tsmD(7,8) [OF tsm, of "report_dir pid n" f f1]
    by (cases done') auto
qed simp_all

lemma update_phase:
  assumes "i < length ts" "ts ! i = (report_data, ph)"
  shows "map fst (ts[i := (report_data, ph')]) = map fst ts"
    "snd (ts[i := (report_data, ph')] ! j) = (if j = i then ph' else snd (ts ! j))"
proof -
  have "map fst ts ! i = report_data" using assms by simp
  then have "(map fst ts)[i := report_data] = map fst ts" by (metis list_update_id)
  then show "map fst (ts[i := (report_data, ph')]) = map fst ts" by (simp add: map_update)
qed (use assms in \<open>simp add: nth_list_update\<close>)

text \<open>Taking a counter value leaves the file system alone.\<close>

lemma files_inv_named:
  assumes inv: "files_inv quoted pid v0 v ts" and i: "i < length ts" "ts ! i = (report_data, Quote_Start)"
  shows "files_inv quoted pid v0 v (ts[i := (report_data, Quote_Named n)])"
  unfolding files_inv_def
proof (intro conjI allI impI)
  let ?ts = "ts[i := (report_data, Quote_Named n)]"
  have same: "?ts ! j = ts ! j" if "j \<noteq> i" for j using that by simp
  have old: "phase_ok quoted pid v (fst (ts ! j)) (snd (ts ! j))"
    "holding (snd (ts ! j)) \<Longrightarrow> v0 (report_dir pid (counter (snd (ts ! j)))) = None" if "j < length ts" for j
    using inv that by (simp_all add: files_inv_def)
  show "phase_ok quoted pid v (fst (?ts ! j)) (snd (?ts ! j))" if "j < length ?ts" for j
    using old(1) [of j] that i by (cases "j = i") simp_all
  show "v0 (report_dir pid (counter (snd (?ts ! j)))) = None" if "j < length ?ts" "holding (snd (?ts ! j))" for j
    using old(2) [of j] that i by (cases "j = i") simp_all
  show "v d = v0 d" if d: "\<forall>j < length ?ts. holding (snd (?ts ! j)) \<longrightarrow> d \<noteq> report_dir pid (counter (snd (?ts ! j)))" for d
  proof -
    have "d \<noteq> report_dir pid (counter (snd (ts ! j)))" if "j < length ts" "holding (snd (ts ! j))" for j
      using d that i same [of j] by (cases "j = i") auto
    then show ?thesis using inv by (simp add: files_inv_def)
  qed
qed

lemma order_invD:
  assumes "order_inv seq0 reqs w"
  shows "map fst (quote_tasks w) = reqs" "length (quote_tasks w) = length reqs" "distinct (quote_order w)"
    "i \<in> set (quote_order w) \<longleftrightarrow> i < length reqs \<and> phase_of w i \<noteq> Quote_Start"
    "quote_seq w = seq0 + word_of_nat (length (quote_order w))"
    "j < length (quote_order w) \<Longrightarrow> counter (phase_of w (quote_order w ! j)) = seq0 + word_of_nat j"
  using assms by (auto simp: order_inv_def)

lemma order_inv_started:
  assumes inv: "order_inv seq0 reqs w" and i: "i < length (quote_tasks w)" "quote_tasks w ! i = (report_data, ph)"
    and ph: "ph \<noteq> Quote_Start" "ph' \<noteq> Quote_Start" "counter ph' = counter ph"
  shows "order_inv seq0 reqs (w\<lparr>quote_files := f', quote_tasks := (quote_tasks w)[i := (report_data, ph')]\<rparr>)"
  unfolding order_inv_def
proof (intro conjI allI impI)
  note upd = update_phase [OF i, of ph']
  note old = order_invD [OF inv]
  show "map fst (quote_tasks (w\<lparr>quote_files := f', quote_tasks := (quote_tasks w)[i := (report_data, ph')]\<rparr>)) = reqs"
    using upd(1) old(1) by simp
  show "j \<in> set (quote_order (w\<lparr>quote_files := f', quote_tasks := (quote_tasks w)[i := (report_data, ph')]\<rparr>)) \<longleftrightarrow>
      j < length reqs \<and> phase_of (w\<lparr>quote_files := f', quote_tasks := (quote_tasks w)[i := (report_data, ph')]\<rparr>) j \<noteq> Quote_Start" for j
    using upd(2) [of j] old(4) [of j] ph i by simp
  show "counter (phase_of (w\<lparr>quote_files := f', quote_tasks := (quote_tasks w)[i := (report_data, ph')]\<rparr>)
        (quote_order (w\<lparr>quote_files := f', quote_tasks := (quote_tasks w)[i := (report_data, ph')]\<rparr>) ! j)) = seq0 + word_of_nat j"
    if "j < length (quote_order (w\<lparr>quote_files := f', quote_tasks := (quote_tasks w)[i := (report_data, ph')]\<rparr>))" for j
    using that upd(2) [of "quote_order w ! j"] old(6) [of j] ph(3) i(2) by (auto split: if_splits)
qed (use order_invD [OF inv] in simp_all)

lemma order_inv_start:
  assumes inv: "order_inv seq0 reqs w" and i: "i < length (quote_tasks w)" "quote_tasks w ! i = (report_data, Quote_Start)"
  shows "order_inv seq0 reqs \<lparr>quote_seq = quote_seq w + 1, quote_files = quote_files w,
    quote_tasks = (quote_tasks w)[i := (report_data, Quote_Named (quote_seq w))], quote_order = quote_order w @ [i]\<rparr>"
  (is "order_inv seq0 reqs ?w")
  unfolding order_inv_def
proof (intro conjI allI impI)
  note upd = update_phase [OF i, of "Quote_Named (quote_seq w)"]
  note old = order_invD [OF inv]
  have new: "i \<notin> set (quote_order w)" using old(4) [of i] i by simp
  show "map fst (quote_tasks ?w) = reqs" using upd(1) old(1) by simp
  show "distinct (quote_order ?w)" using old(3) new by simp
  show "j \<in> set (quote_order ?w) \<longleftrightarrow> j < length reqs \<and> phase_of ?w j \<noteq> Quote_Start" for j
    using upd(2) [of j] old(2) old(4) [of j] i by simp
  show "quote_seq ?w = seq0 + word_of_nat (length (quote_order ?w))" using old(5) by simp
  show "counter (phase_of ?w (quote_order ?w ! j)) = seq0 + word_of_nat j" if j: "j < length (quote_order ?w)" for j
  proof (cases "j < length (quote_order w)")
    case True
    then have "quote_order w ! j \<noteq> i" using new nth_mem by metis
    then show ?thesis using True upd(2) [of "quote_order w ! j"] old(6) [OF True] by (simp add: nth_append)
  next
    case False
    then have "j = length (quote_order w)" using j by simp
    then show ?thesis using upd(2) [of i] old(5) by (simp add: nth_append)
  qed
qed

lemma quotes_inv_start: "quotes_inv fs view quoted pid seq f reqs (quote_world_start seq f reqs)"
  by (auto simp: quotes_inv_def order_inv_def files_inv_def quote_world_start_def comp_def)

lemma quotes_inv_step:
  assumes tsm: "configfs_tsm fs view quoted" and few: "length reqs \<le> 2 ^ 64"
    and inv: "quotes_inv fs view quoted pid seq0 f0 reqs w" and step: "quote_step fs pid w w'"
  shows "quotes_inv fs view quoted pid seq0 f0 reqs w'"
  using step
proof (cases rule: quote_step.cases)
  case (quote_step i report_data ph ph' seq' f')
  have o: "order_inv seq0 reqs w" and f: "files_inv quoted pid (view f0) (view (quote_files w)) (quote_tasks w)"
    using inv by (simp_all add: quotes_inv_def)
  note len = order_invD(2) [OF o]
  show ?thesis
  proof (cases "ph = Quote_Start")
    case True
    then have adv: "ph' = Quote_Named (quote_seq w)" "seq' = quote_seq w + 1" "f' = quote_files w" using quote_step(4) by simp_all
    have "files_inv quoted pid (view f0) (view (quote_files w)) ((quote_tasks w)[i := (report_data, ph')])"
      using files_inv_named [OF f quote_step(2)] quote_step(3) True adv(1) by simp
    then show ?thesis
      using order_inv_start [OF o quote_step(2)] quote_step(1,3) True adv by (simp add: quotes_inv_def)
  next
    case False
    let ?d = "report_dir pid (counter ph)"
    have others: "report_dir pid (counter (phase_of w j)) \<noteq> ?d"
      if "j < length (quote_tasks w)" "j \<noteq> i" "phase_of w j \<noteq> Quote_Start" for j
      using counters_distinct [OF o few, of j i] that quote_step(2,3) len False by (auto simp: report_dir_inject)
    have own: "phase_ok quoted pid (view (quote_files w)) report_data ph" "holding ph \<Longrightarrow> view f0 ?d = None"
      using f quote_step(2,3) by (force simp: files_inv_def)+
    have unheld: "view (quote_files w) ?d = view f0 ?d" if "\<not> holding ph"
      using files_inv_unheld [OF f quote_step(2) _ others] that quote_step(3) by simp
    note adv = advance_started [OF tsm False quote_step(4) own(1), of "view f0", OF own(2) unheld]
    have "files_inv quoted pid (view f0) (view f') ((quote_tasks w)[i := (report_data, ph')])"
      using adv by (intro files_inv_update [OF f quote_step(2,3) _ _ others]) auto
    moreover have "order_inv seq0 reqs (w\<lparr>quote_files := f', quote_tasks := (quote_tasks w)[i := (report_data, ph')]\<rparr>)"
      using adv False by (intro order_inv_started [OF o quote_step(2,3)]) auto
    ultimately show ?thesis
      using quote_step(1) False adv by (simp add: quotes_inv_def order_inv_def)
  qed
qed

definition guarded_quote_step ::
  "'f fs_lib \<Rightarrow> ('f \<Rightarrow> string \<Rightarrow> bytes option option) \<Rightarrow> (bytes \<Rightarrow> bytes \<Rightarrow> bool) \<Rightarrow> u32 \<Rightarrow> bytes list \<Rightarrow>
   'f quote_world \<Rightarrow> 'f quote_world \<Rightarrow> bool" where
  "guarded_quote_step fs view quoted pid reqs w w' \<longleftrightarrow>
     configfs_tsm fs view quoted \<and> length reqs \<le> 2 ^ 64 \<and> quote_step fs pid w w'"

interpretation quotes: invariant_system "quote_world_start seq f reqs" "guarded_quote_step fs view quoted pid reqs"
  "quotes_inv fs view quoted pid seq f reqs" for fs view quoted pid seq f reqs
  by unfold_locales (auto simp: quotes_inv_start guarded_quote_step_def intro: quotes_inv_step)

lemma reachable_quotes_inv:
  assumes "configfs_tsm fs view quoted" "length reqs \<le> 2 ^ 64" "reachable (quote_world_start seq f reqs) (quote_step fs pid) w"
  shows "quotes_inv fs view quoted pid seq f reqs w"
  using quotes.inv_reachable reachable_mono [OF assms(3), of "guarded_quote_step fs view quoted pid reqs"] assms(1,2)
  by (simp add: guarded_quote_step_def)

subsection \<open>What concurrent fetching promises\<close>

lemma finished_quote:
  assumes "configfs_tsm fs view quoted" "length reqs \<le> 2 ^ 64"
    "reachable (quote_world_start seq f reqs) (quote_step fs pid) w"
    and i: "i < length reqs" "snd (quote_tasks w ! i) = Quote_Done n (Some q) left"
  shows "quoted (reqs ! i) q \<and> q \<noteq> []"
proof -
  have o: "order_inv seq reqs w" and inv: "files_inv quoted pid (view f) (view (quote_files w)) (quote_tasks w)"
    using reachable_quotes_inv [OF assms(1-3)] by (simp_all add: quotes_inv_def)
  have "phase_ok quoted pid (view (quote_files w)) (fst (quote_tasks w ! i)) (Quote_Done n (Some q) left)"
    using inv i order_invD(2) [OF o] unfolding files_inv_def by metis
  moreover have "fst (quote_tasks w ! i) = reqs ! i" using order_invD(1,2) [OF o] i(1) by (metis nth_map)
  ultimately show ?thesis by (simp add: result_ok_def)
qed

text \<open>
  C14: concurrent requests never get each other's quotes. In every state that any interleaving of the file operations of up to
  \<open>2 ^ 64\<close> requests reaches, a request that has finished with a quote has one over its own challenge, not
  empty; and when all have finished, every report entry is as it was before, except at most the own entries of requests
  whose \<^verbatim>\<open>remove_dir\<close> failed.
\<close>

theorem quotes_do_not_cross:
  assumes "configfs_tsm fs view quoted" "length reqs \<le> 2 ^ 64"
    "reachable (quote_world_start seq f reqs) (quote_step fs pid) w"
  shows "map fst (quote_tasks w) = reqs \<and>
    (\<forall>i n q left. i < length reqs \<and> snd (quote_tasks w ! i) = Quote_Done n (Some q) left \<longrightarrow> quoted (reqs ! i) q \<and> q \<noteq> []) \<and>
    (\<forall>d. (\<forall>i < length reqs. \<exists>n r left. snd (quote_tasks w ! i) = Quote_Done n r left \<and> (left \<longrightarrow> d \<noteq> report_dir pid n)) \<longrightarrow>
      view (quote_files w) d = view f d)"
proof -
  have o: "order_inv seq reqs w" and inv: "files_inv quoted pid (view f) (view (quote_files w)) (quote_tasks w)"
    using reachable_quotes_inv [OF assms] by (simp_all add: quotes_inv_def)
  have "quoted (reqs ! i) q \<and> q \<noteq> []" if "i < length reqs" "phase_of w i = Quote_Done n (Some q) left" for i n q left
    using finished_quote [OF assms] that .
  moreover have "view (quote_files w) d = view f d"
    if d: "\<forall>i < length reqs. \<exists>n r left. phase_of w i = Quote_Done n r left \<and> (left \<longrightarrow> d \<noteq> report_dir pid n)" for d
  proof -
    have "d \<noteq> report_dir pid (counter (phase_of w i))" if "i < length reqs" "holding (phase_of w i)" for i
      using that d by fastforce
    then show ?thesis using inv order_invD(2) [OF o] by (simp add: files_inv_def)
  qed
  ultimately show ?thesis using order_invD(1) [OF o] by blast
qed

text \<open>A schedule: the tasks that move, in order.\<close>

definition quote_move :: "'f fs_lib \<Rightarrow> u32 \<Rightarrow> nat \<Rightarrow> 'f quote_world \<Rightarrow> 'f quote_world" where
  "quote_move fs pid i w =
     (if i < length (quote_tasks w)
      then (case quote_tasks w ! i of (report_data, ph) \<Rightarrow>
        (case quote_advance fs pid report_data (ph, quote_seq w, quote_files w) of
           None \<Rightarrow> w
         | Some (ph', seq', f') \<Rightarrow>
             \<lparr>quote_seq = seq', quote_files = f', quote_tasks = (quote_tasks w)[i := (report_data, ph')],
              quote_order = (if ph = Quote_Start then quote_order w @ [i] else quote_order w)\<rparr>))
      else w)"

lemma quote_move_step: "quote_move fs pid i w = w \<or> quote_step fs pid w (quote_move fs pid i w)"
proof (cases "i < length (quote_tasks w)")
  case True
  obtain report_data ph where t: "quote_tasks w ! i = (report_data, ph)" by fastforce
  show ?thesis
  proof (cases "quote_advance fs pid report_data (ph, quote_seq w, quote_files w)")
    case (Some s)
    obtain ph' seq' f' where "s = (ph', seq', f')" by (cases s)
    then show ?thesis using quote_step.intros [OF True t] Some True t by (simp add: quote_move_def)
  qed (simp add: quote_move_def True t)
qed (simp add: quote_move_def)

lemma schedule_reachable: "reachable w (quote_step fs pid) (fold (quote_move fs pid) is w)"
proof (induction "is" rule: rev_induct)
  case (snoc i "is")
  have "reachable w (quote_step fs pid) (quote_move fs pid i (fold (quote_move fs pid) is w))"
    using quote_move_step [of fs pid i "fold (quote_move fs pid) is w"] snoc reachable.reachable_step by metis
  then show ?case by simp
qed (simp add: reachable.reachable_init)

text \<open>
  A report interface whose quotes are the challenge with a byte in front, and one like it that cannot remove entries.
\<close>

definition tsm_fs :: "(string \<Rightarrow> bytes option option) fs_lib" where
  "tsm_fs = \<lparr>create_dir = (\<lambda>d f. case f d of None \<Rightarrow> (True, f(d := Some None)) | Some _ \<Rightarrow> (False, f)),
     write_file = (\<lambda>p b f. (True, f(take (length p - 7) p := Some (Some b)))),
     read_file = (\<lambda>p f. case f (take (length p - 8) p) of Some (Some b) \<Rightarrow> (Some (81 # b), f) | _ \<Rightarrow> (None, f)),
     remove_dir = (\<lambda>d f. (True, f(d := None)))\<rparr>"

definition busy_fs :: "(string \<Rightarrow> bytes option option) fs_lib" where
  "busy_fs = tsm_fs\<lparr>remove_dir := (\<lambda>d f. (False, f))\<rparr>"

lemma tsm_fs_ok: "configfs_tsm tsm_fs (\<lambda>f. f) (\<lambda>b q. q = 81 # b)"
  by (auto simp: configfs_tsm_def tsm_fs_def path_join_def split: option.splits)

lemma busy_fs_ok: "configfs_tsm busy_fs (\<lambda>f. f) (\<lambda>b q. q = 81 # b)"
  by (auto simp: configfs_tsm_def busy_fs_def tsm_fs_def path_join_def split: option.splits)

definition two_quotes :: "(string \<Rightarrow> bytes option option) fs_lib \<Rightarrow> (string \<Rightarrow> bytes option option) quote_world" where
  "two_quotes fs = fold (quote_move fs 7) [0, 1, 1, 0, 0, 1, 0, 1, 1, 0] (quote_world_start 0 (\<lambda>_. None) [[1], [2]])"

lemma two_quotes_done:
  "quote_tasks (two_quotes tsm_fs) = [([1], Quote_Done 0 (Some [81, 1]) False), ([2], Quote_Done 1 (Some [81, 2]) False)]"
  "quote_tasks (two_quotes busy_fs) = [([1], Quote_Done 0 (Some [81, 1]) True), ([2], Quote_Done 1 (Some [81, 2]) True)]"
  by code_simp+

lemma two_quotes_reachable: "reachable (quote_world_start 0 (\<lambda>_. None) [[1], [2]]) (quote_step fs 7) (two_quotes fs)"
  unfolding two_quotes_def by (rule schedule_reachable)

theorem quotes_do_not_cross_witness:
  "quote_tasks (two_quotes tsm_fs) ! 1 = ([2], Quote_Done 1 (Some [81, 2]) False) \<and>
   quote_files (two_quotes tsm_fs) (report_dir 7 1) = None \<and>
   quote_tasks (two_quotes busy_fs) ! 1 = ([2], Quote_Done 1 (Some [81, 2]) True) \<and>
   quote_files (two_quotes busy_fs) (report_dir 7 2) = None"
proof -
  note c = quotes_do_not_cross [OF tsm_fs_ok _ two_quotes_reachable] quotes_do_not_cross [OF busy_fs_ok _ two_quotes_reachable]
  have "(\<forall>i < length [[1], [2 :: u8]]. \<exists>n r left. snd (quote_tasks (two_quotes tsm_fs) ! i) = Quote_Done n r left \<and>
      (left \<longrightarrow> report_dir 7 1 \<noteq> report_dir 7 n)) \<longrightarrow> quote_files (two_quotes tsm_fs) (report_dir 7 1) = None"
    using c(1) by simp
  moreover have "(\<forall>i < length [[1], [2 :: u8]]. \<exists>n r left. snd (quote_tasks (two_quotes busy_fs) ! i) = Quote_Done n r left \<and>
      (left \<longrightarrow> report_dir 7 2 \<noteq> report_dir 7 n)) \<longrightarrow> quote_files (two_quotes busy_fs) (report_dir 7 2) = None"
    using c(2) by simp
  ultimately show ?thesis
    by (auto simp: two_quotes_done less_Suc_eq nth_Cons report_dir_inject split: nat.splits)
qed

end
