(* ===== verification/GPU_Helper.thy ===== *)
theory GPU_Helper
  imports Attestation Uuid_V5
begin

text \<open>
  \<^verbatim>\<open>src/nix/gpu-report.py\<close>, the helper process that \<^verbatim>\<open>gpu_reports_all\<close> of \<^verbatim>\<open>src/src/attestation.rs\<close> runs. NVML is the record \<open>nvml\<close>
  (\<open>None\<close> is a call that raises), \<^verbatim>\<open>argparse\<close>, \<^verbatim>\<open>json.dump\<close> and the Unicode class of white space are the record \<open>py_lib\<close>. A
  Python \<^verbatim>\<open>str\<close> is its UTF-8 bytes. An exception that \<^verbatim>\<open>main\<close> does not catch ends the process with exit code 1.

  The property joins the two processes: what the service takes for the report of GPU \<open>i\<close> is what NVML returned for
  device \<open>i\<close> on the challenge of index \<open>i\<close>, for every device of the board, in the confidential mode.
\<close>

subsection \<open>Python's decoders\<close>

text \<open>\<^verbatim>\<open>bytes.decode("utf-8", errors="ignore")\<close>: ill-formed chunks are dropped.\<close>

function decode_ignore :: "bytes \<Rightarrow> bytes" where
  "decode_ignore [] = []"
| "decode_ignore (b # bs) =
     (let (ok, n) = utf8_chunk b bs in (if ok then take n (b # bs) else []) @ decode_ignore (drop (n - 1) bs))"
  by pat_completeness auto
termination
  by (relation "measure length") (auto simp: le_imp_less_Suc)

text \<open>The value of a character of the standard base64 alphabet.\<close>

definition a2b_val :: "u8 \<Rightarrow> u8 option" where
  "a2b_val c =
     (if 0x41 \<le> c \<and> c \<le> 0x5a then Some (c - 0x41)
      else if 0x61 \<le> c \<and> c \<le> 0x7a then Some (c - 0x61 + 26)
      else if 0x30 \<le> c \<and> c \<le> 0x39 then Some (c - 0x30 + 52)
      else if c = 0x2b then Some 62
      else if c = 0x2f then Some 63
      else None)"

text \<open>
  \<^verbatim>\<open>binascii.a2b_base64\<close> in its lenient mode: other characters are skipped, a complete padding ends the input, and an input that
  ends inside a group raises.
\<close>

fun a2b_loop :: "nat \<Rightarrow> nat \<Rightarrow> u8 \<Rightarrow> bytes \<Rightarrow> bytes \<Rightarrow> bytes option" where
  "a2b_loop quad pads left out [] = (if quad = 0 then Some out else None)"
| "a2b_loop quad pads left out (c # cs) =
     (if c = 0x3d then
        (if quad \<ge> 2 \<and> quad + (pads + 1) \<ge> 4 then Some out
         else a2b_loop quad (if quad \<ge> 2 then pads + 1 else pads) left out cs)
      else (case a2b_val c of
              None \<Rightarrow> a2b_loop quad pads left out cs
            | Some v \<Rightarrow>
                if quad = 0 then a2b_loop 1 0 v out cs
                else if quad = 1 then a2b_loop 2 0 (v AND 0x0f) (out @ [push_bit 2 left OR drop_bit 4 v]) cs
                else if quad = 2 then a2b_loop 3 0 (v AND 0x03) (out @ [push_bit 4 left OR drop_bit 2 v]) cs
                else a2b_loop 0 0 0 (out @ [push_bit 6 left OR v]) cs))"

text \<open>\<^verbatim>\<open>str.split()\<close> splits at white space; the ASCII part of it.\<close>

definition ascii_space :: "u8 \<Rightarrow> bool" where
  "ascii_space b \<longleftrightarrow> (0x09 \<le> b \<and> b \<le> 0x0d) \<or> (0x1c \<le> b \<and> b \<le> 0x20)"

definition join_split :: "(bytes \<Rightarrow> bool) \<Rightarrow> bytes \<Rightarrow> bytes list" where
  "join_split unicode_space str = filter (\<lambda>ch. \<not> (case ch of [b] \<Rightarrow> ascii_space b | _ \<Rightarrow> unicode_space ch)) (utf8_chars str)"

text \<open>\<^verbatim>\<open>base64.b64decode\<close> of a \<^verbatim>\<open>str\<close>: a character that is not ASCII raises.\<close>

definition b64decode :: "bytes list \<Rightarrow> bytes option" where
  "b64decode chars = (if list_all ascii_char chars then a2b_loop 0 0 0 [] (concat chars) else None)"

function pem_bundle_loop :: "(bytes \<Rightarrow> bool) \<Rightarrow> bytes \<Rightarrow> string list option" where
  "pem_bundle_loop unicode_space str =
     (case find_sub PEM_BEGIN str of None \<Rightarrow> Some []
      | Some start \<Rightarrow>
        (case find_sub PEM_END (drop start str) of None \<Rightarrow> Some []
         | Some stop \<Rightarrow>
           (case b64decode (join_split unicode_space (take (stop - length PEM_BEGIN) (drop (start + length PEM_BEGIN) str))) of
              None \<Rightarrow> None
            | Some der \<Rightarrow>
              (case pem_bundle_loop unicode_space (drop (start + stop + length PEM_END) str) of
                 None \<Rightarrow> None | Some rest \<Rightarrow> Some (b64_encode der # rest)))))"
  by pat_completeness auto
termination
proof (relation "measure (\<lambda>(_, str). length str)", simp)
  fix unicode_space :: "bytes \<Rightarrow> bool" and str start stop der
  assume "find_sub PEM_BEGIN str = Some start"
  then have "0 < length str" using find_sub_bound [of PEM_BEGIN str start] by (cases str) (simp_all add: PEM_BEGIN_def)
  then show "((unicode_space, drop (start + stop + length PEM_END) str), unicode_space, str) \<in> measure (\<lambda>(_, str). length str)"
    by (simp add: PEM_END_def)
qed

declare pem_bundle_loop.simps [simp del]

definition der_certs_from_pem_bundle :: "(bytes \<Rightarrow> bool) \<Rightarrow> bytes \<Rightarrow> string list option" where
  "der_certs_from_pem_bundle unicode_space blob = pem_bundle_loop unicode_space (decode_ignore blob)"

subsection \<open>The process\<close>

definition NONCE_LEN :: nat where "NONCE_LEN = 32"

definition NVML_CC_SYSTEM_MULTIGPU_NVLE :: int where "NVML_CC_SYSTEM_MULTIGPU_NVLE = 2"

record py_lib =
  parse_args :: "string list \<Rightarrow> nat + string list"
  json_dump :: "gpu list \<Rightarrow> bytes"
  py_unicode_space :: "bytes \<Rightarrow> bool"

text \<open>
  A structure with a buffer and its size is a pair. \<open>nvmlSystemGetConfComputeState\<close> returns the attribute \<^verbatim>\<open>ccFeature\<close> if there is one,
  \<open>nvmlSystemGetConfComputeSettings\<close> the two spellings of \<^verbatim>\<open>multiGpuMode\<close>.
\<close>

record 'd nvml =
  nvmlInit :: bool
  nvmlDeviceGetCount :: "nat option"
  nvmlSystemGetConfComputeState :: "int option option"
  nvmlSystemGetConfComputeSettings :: "(int option \<times> int option) option"
  nvmlDeviceGetHandleByIndex :: "nat \<Rightarrow> 'd option"
  nvmlDeviceGetConfComputeGpuAttestationReport :: "'d \<Rightarrow> bytes \<Rightarrow> (bytes \<times> nat) option"
  nvmlDeviceGetConfComputeGpuCertificate :: "'d \<Rightarrow> (bytes \<times> nat) option"
  nvmlShutdown :: bool

text \<open>Ways a Python function ends: a value, or an exception.\<close>

datatype 'a py = Value 'a | Raises

fun parse_nonces :: "string list \<Rightarrow> bytes list option py" where
  "parse_nonces [] = Value (Some [])"
| "parse_nonces (h # hs) =
     (if \<not> list_all (\<lambda>b. b < 0x80) (as_bytes h) then Raises
      else (case hex_decode h of None \<Rightarrow> Value None
        | Some n \<Rightarrow>
            if length n \<noteq> NONCE_LEN then Value None
            else (case parse_nonces hs of Value (Some ns) \<Rightarrow> Value (Some (n # ns)) | other \<Rightarrow> other)))"

definition multi_gpu_mode :: "'d nvml \<Rightarrow> int py" where
  "multi_gpu_mode nv =
     (case nvmlSystemGetConfComputeSettings nv of None \<Rightarrow> Raises
      | Some (multiGpuMode, multi_gpu_mode') \<Rightarrow>
          Value (case multiGpuMode of Some v \<Rightarrow> v | None \<Rightarrow> (case multi_gpu_mode' of Some v \<Rightarrow> v | None \<Rightarrow> -1)))"

text \<open>The loop over the devices: the list of entries, or the exit code 1, or an exception.\<close>

fun device_loop :: "py_lib \<Rightarrow> 'd nvml \<Rightarrow> nat \<Rightarrow> bytes list \<Rightarrow> (nat + gpu list) py" where
  "device_loop lib nv i [] = Value (Inr [])"
| "device_loop lib nv i (nonce # nonces) =
     (case nvmlDeviceGetHandleByIndex nv i of None \<Rightarrow> Raises
      | Some dev \<Rightarrow>
        (case nvmlDeviceGetConfComputeGpuAttestationReport nv dev nonce of None \<Rightarrow> Raises
         | Some (report, report_size) \<Rightarrow>
           (case nvmlDeviceGetConfComputeGpuCertificate nv dev of None \<Rightarrow> Raises
            | Some (cert, cert_size) \<Rightarrow>
              (case der_certs_from_pem_bundle (py_unicode_space lib) (take cert_size cert) of None \<Rightarrow> Raises
               | Some chain \<Rightarrow>
                 if take report_size report = [] \<or> chain = [] then Value (Inl 1)
                 else (case device_loop lib nv (i + 1) nonces of
                         Value (Inr gpus) \<Rightarrow>
                           Value (Inr (\<lparr>gpu_report = b64_encode (take report_size report), gpu_cert_chain = chain\<rparr> # gpus))
                       | other \<Rightarrow> other)))))"

text \<open>The body of the \<^verbatim>\<open>try\<close>.\<close>

definition helper_try :: "py_lib \<Rightarrow> 'd nvml \<Rightarrow> bytes list \<Rightarrow> (nat + gpu list) py" where
  "helper_try lib nv nonces =
     (case nvmlDeviceGetCount nv of None \<Rightarrow> Raises
      | Some count \<Rightarrow>
        if count \<noteq> length nonces then Value (Inl 1)
        else (case nvmlSystemGetConfComputeState nv of None \<Rightarrow> Raises
          | Some ccFeature \<Rightarrow>
            if (case ccFeature of Some v \<Rightarrow> v | None \<Rightarrow> 0) = 0 then Value (Inl 1)
            else (case multi_gpu_mode nv of Raises \<Rightarrow> Raises
              | Value mode \<Rightarrow>
                if mode \<noteq> NVML_CC_SYSTEM_MULTIGPU_NVLE then Value (Inl 1)
                else device_loop lib nv 0 nonces)))"

text \<open>\<^verbatim>\<open>main\<close> under \<^verbatim>\<open>sys.exit\<close>: the exit code and what is on standard output.\<close>

definition helper_main :: "py_lib \<Rightarrow> 'd nvml \<Rightarrow> string list \<Rightarrow> nat \<times> bytes" where
  "helper_main lib nv argv =
     (case parse_args lib argv of Inl code \<Rightarrow> (code, [])
      | Inr args \<Rightarrow>
        (case parse_nonces args of
           Raises \<Rightarrow> (1, [])
         | Value None \<Rightarrow> (2, [])
         | Value (Some nonces) \<Rightarrow>
           if \<not> nvmlInit nv then (1, [])
           else (case helper_try lib nv nonces of
                   Raises \<Rightarrow> (1, [])
                 | Value (Inl code) \<Rightarrow> (if nvmlShutdown nv then code else 1, [])
                 | Value (Inr gpus) \<Rightarrow> if nvmlShutdown nv then (0, json_dump lib gpus) else (1, []))))"

subsection \<open>Certificate bundles\<close>

lemma decode_ignore_ascii: "list_all (\<lambda>b. b < 0x80) bs \<Longrightarrow> decode_ignore bs = bs"
  by (induction bs) (simp_all add: utf8_chunk_def)

lemma join_split_ascii:
  "list_all (\<lambda>b. b < 0x80) bs \<Longrightarrow> join_split us bs = map (\<lambda>b. [b]) (filter (\<lambda>b. \<not> ascii_space b) bs)"
  by (simp add: join_split_def utf8_chars_ascii filter_map comp_def)

lemma a2b_table: "map a2b_val (as_bytes B64) = map (\<lambda>k. Some (word_of_nat k)) [0..<64]"
  "list_all (\<lambda>c. c \<noteq> 0x3d) (as_bytes B64)"
  by (simp_all add: B64_def a2b_val_def upt_0_64)

lemma a2b_B64: "a2b_val (of_char (B64 ! sextet n k)) = Some (ucast (take_bit 6 (drop_bit k n)))"
  "of_char (B64 ! sextet n k) \<noteq> (0x3d :: u8)"
proof -
  have i: "sextet n k < length (as_bytes B64)" by (simp add: length_tables)
  have "a2b_val (as_bytes B64 ! sextet n k) = map a2b_val (as_bytes B64) ! sextet n k" using i by simp
  also have "\<dots> = Some (word_of_nat (sextet n k))" by (simp add: a2b_table del: word_of_sextet)
  also have "word_of_nat (sextet n k) = (ucast (take_bit 6 (drop_bit k n)) :: u8)"
    by (simp add: sextet_def mask_sextet)
  finally show "a2b_val (of_char (B64 ! sextet n k)) = Some (ucast (take_bit 6 (drop_bit k n)))"
    using i by (simp add: as_bytes_def)
  show "of_char (B64 ! sextet n k) \<noteq> (0x3d :: u8)" using a2b_table(2) i by (simp add: list_all_length as_bytes_def)
qed

lemma a2b_group:
  fixes c0 c1 c2 :: u8
  defines "n \<equiv> triple c0 c1 c2"
  defines "s \<equiv> \<lambda>k. ucast (take_bit 6 (drop_bit k n)) :: u8"
  shows "push_bit 2 (s 18) OR drop_bit 4 (s 12) = c0"
    "push_bit 4 (s 12 AND 0x0f) OR drop_bit 2 (s 6) = c1"
    "push_bit 6 (s 6 AND 0x03) OR s 0 = c2"
  unfolding s_def n_def
  by (rule u8_eqI; simp add: group_bits flip: numeral_2_eq_2)+

lemma a2b_encode: "a2b_loop 0 0 0 out (as_bytes (b64_encode bs)) = Some (out @ bs)"
proof (induction bs arbitrary: out rule: b64_encode_induct)
  case (three c0 c1 c2 rest)
  then show ?case by (simp add: b64_quad_bytes a2b_B64 a2b_group [simplified])
next
  case empty
  show ?case by simp
next
  case (one r0)
  show ?case by (simp add: b64_quad_bytes a2b_B64 a2b_group [simplified])
next
  case (two r0 r1)
  show ?case by (simp add: b64_quad_bytes a2b_B64 a2b_group [simplified])
qed

text \<open>The certificate's text as PEM carries it: base64 from the line after the marker on, broken into lines at will.\<close>

definition wraps :: "string \<Rightarrow> bytes \<Rightarrow> bool" where
  "wraps t der \<longleftrightarrow> take 1 t = [CHR 0x0a] \<and> plain t \<and> filter (\<lambda>b. \<not> ascii_space b) (as_bytes t) = as_bytes (b64_encode der)"

lemma wraps_decode:
  assumes "wraps t der"
  shows "b64decode (join_split us (as_bytes t)) = Some der"
proof -
  have ascii: "list_all (\<lambda>b. b < 0x80) (as_bytes t)"
    using assms by (simp add: wraps_def plain_def as_bytes_def list_all_iff)
  then have "list_all ascii_char (map (\<lambda>b. [b]) (filter (\<lambda>b. \<not> ascii_space b) (as_bytes t)))"
    by (auto simp: ascii_char_def list_all_iff)
  moreover have "concat (map (\<lambda>b. [b]) (filter (\<lambda>b. \<not> ascii_space b) (as_bytes t))) = as_bytes (b64_encode der)"
    using assms by (simp add: wraps_def)
  ultimately show ?thesis by (simp only: b64decode_def join_split_ascii [OF ascii] a2b_encode if_True append_Nil)
qed

text \<open>The end marker is not found inside the begin marker.\<close>

lemma find_end_begin:
  assumes "0x2d \<notin> set xs" "take 1 xs = [0x0a]"
  shows "find_sub PEM_END (PEM_BEGIN @ xs @ PEM_END @ zs) = Some (length PEM_BEGIN + length xs)"
proof -
  obtain ys where xs: "xs = 0x0a # ys" using assms(2) by (cases xs) simp_all
  obtain ps where ps: "PEM_END = 0x2d # ps" using pem_markers by blast
  have "find_sub PEM_END (xs @ PEM_END) = Some (length xs)" unfolding ps by (rule find_sub_fresh [OF assms(1)])
  then have e: "find_sub PEM_END (xs @ PEM_END @ zs) = Some (length xs)" by (rule find_sub_stable)
  have "find_sub PEM_END (PEM_BEGIN @ 0x0a # us) = map_option ((+) (length PEM_BEGIN)) (find_sub PEM_END (0x0a # us))" for us
    by (simp add: PEM_BEGIN_def PEM_END_def option.map_comp comp_def del: find_sub.simps(1))
  with e show ?thesis unfolding xs by simp
qed

lemma bundle_loop_text:
  assumes "list_all2 wraps ts ders"
  shows "xs = [] \<or> xs = [0x0a] \<Longrightarrow> pem_bundle_loop us (xs @ pem_text ts) = Some (map b64_encode ders)"
  using assms
proof (induction ts ders arbitrary: xs rule: list_all2_induct)
  case Nil
  have "find_sub PEM_BEGIN ([0x0a] :: bytes) = None" "find_sub PEM_BEGIN ([] :: bytes) = None" by (simp_all add: PEM_BEGIN_def)
  with Nil show ?case by (auto simp: pem_bundle_loop.simps)
next
  case (Cons t ts der ders)
  obtain ps where ps: "PEM_BEGIN = 0x2d # ps" using pem_markers by blast
  let ?rest = "[0x0a] @ pem_text ts"
  have "find_sub PEM_BEGIN (xs @ PEM_BEGIN) = Some (length xs)"
    unfolding ps by (rule find_sub_fresh) (use Cons.prems in auto)
  then have b: "find_sub PEM_BEGIN (xs @ PEM_BEGIN @ as_bytes t @ PEM_END @ ?rest) = Some (length xs)"
    using find_sub_stable by blast
  have "take 1 (as_bytes t) = [0x0a]" using Cons.hyps(1) by (cases t) (simp_all add: wraps_def)
  then have e: "find_sub PEM_END (PEM_BEGIN @ as_bytes t @ PEM_END @ ?rest) = Some (length PEM_BEGIN + length t)"
    using find_end_begin [of "as_bytes t" ?rest] plain_no_dash Cons.hyps(1) by (simp add: wraps_def)
  show ?case
    using b e wraps_decode [OF Cons.hyps(1), of us] Cons.IH [of "[0x0a]"]
    by (subst pem_bundle_loop.simps) simp
qed

lemma der_certs_roundtrip:
  assumes "list_all2 wraps ts ders"
  shows "der_certs_from_pem_bundle us (pem_text ts) = Some (map b64_encode ders)"
proof -
  have "list_all plain ts" using assms by (induction rule: list_all2_induct) (auto simp: wraps_def)
  then show ?thesis
    using bundle_loop_text [OF assms, of "[]"] decode_ignore_ascii [OF pem_text_ascii] by (simp add: der_certs_from_pem_bundle_def)
qed

subsection \<open>From NVML to the service\<close>

text \<open>
  What the two sides document of their libraries: \<^verbatim>\<open>argparse\<close> with \<^verbatim>\<open>action="append"\<close> collects the
  values of a repeated option in order, for values that do not look like options; \<^verbatim>\<open>serde_json\<close> reads back
  what \<^verbatim>\<open>json.dump\<close> wrote.
\<close>

definition argparse_append :: "py_lib \<Rightarrow> bool" where
  "argparse_append lib \<longleftrightarrow>
     (\<forall>vs. vs \<noteq> [] \<and> list_all (\<lambda>v. v \<noteq> [] \<and> hd v \<noteq> CHR ''-'') vs \<longrightarrow>
        parse_args lib (concat (map (\<lambda>v. [''--nonce-hex'', v]) vs)) = Inr vs)"

definition json_roundtrip :: "py_lib \<Rightarrow> gpu_lib \<Rightarrow> bool" where
  "json_roundtrip lib glib \<longleftrightarrow> (\<forall>gpus. helper_from_slice glib (json_dump lib gpus) = Some gpus)"

text \<open>The service's \<^verbatim>\<open>Command::output\<close> when the helper is the program it runs.\<close>

definition runs_helper :: "py_lib \<Rightarrow> 'd nvml \<Rightarrow> gpu_lib \<Rightarrow> bool" where
  "runs_helper lib nv glib \<longleftrightarrow>
     (\<forall>cmd args. command_output glib cmd args = Some (fst (helper_main lib nv args) = 0, snd (helper_main lib nv args)))"

text \<open>
  What a report and chain of GPU \<open>i\<close> have to be: device \<open>i\<close>'s own report on the challenge \<open>nonce\<close>, cut to its size, and the certificates of
  the bundle NVML returns for that device; neither is empty.
\<close>

definition device_attests :: "py_lib \<Rightarrow> 'd nvml \<Rightarrow> nat \<Rightarrow> bytes \<Rightarrow> bytes \<times> bytes list \<Rightarrow> bool" where
  "device_attests lib nv i nonce gpu \<longleftrightarrow>
     (\<exists>dev report report_size cert cert_size.
        nvmlDeviceGetHandleByIndex nv i = Some dev \<and>
        nvmlDeviceGetConfComputeGpuAttestationReport nv dev nonce = Some (report, report_size) \<and>
        nvmlDeviceGetConfComputeGpuCertificate nv dev = Some (cert, cert_size) \<and>
        fst gpu = take report_size report \<and> fst gpu \<noteq> [] \<and>
        der_certs_from_pem_bundle (py_unicode_space lib) (take cert_size cert) = Some (map b64_encode (snd gpu)) \<and>
        snd gpu \<noteq> [])"

definition gpu_entry :: "bytes \<times> bytes list \<Rightarrow> gpu" where
  "gpu_entry gpu = \<lparr>gpu_report = b64_encode (fst gpu), gpu_cert_chain = map b64_encode (snd gpu)\<rparr>"

lemma gpu_entry_simps [simp]: "gpu_report (gpu_entry g) = b64_encode (fst g)" "gpu_cert_chain (gpu_entry g) = map b64_encode (snd g)"
  by (simp_all add: gpu_entry_def)

lemma pem_bundle_loop_encoded: "pem_bundle_loop us str = Some chain \<Longrightarrow> \<exists>ders. chain = map b64_encode ders"
proof (induction us str arbitrary: chain rule: pem_bundle_loop.induct)
  case (1 us str)
  from 1(2) show ?case
    by (subst (asm) pem_bundle_loop.simps)
      (auto split: option.splits dest!: 1(1) intro: exI [of _ "[]"] simp: map_eq_Cons_conv Cons_eq_map_conv)
qed

lemma decode_gpu_entry: "fst g \<noteq> [] \<Longrightarrow> snd g \<noteq> [] \<Longrightarrow> decode_gpu (gpu_entry g) = Some g"
  using collect_opt_map_Some [of "snd g" b64_decode_any b64_encode "\<lambda>x. x"] by (simp add: decode_gpu_def decode_std)

lemma gpu_entry_inject: "gpu_entry g = gpu_entry h \<longleftrightarrow> g = h"
proof -
  have "inj b64_encode" by (rule injI) (metis decode_std option.inject)
  then show ?thesis by (auto simp: gpu_entry_def prod_eq_iff inj_map_eq_map inj_eq)
qed

text \<open>One round of the loop.\<close>

lemma device_loop_Cons:
  "device_loop lib nv i (nonce # nonces) = Value (Inr gs) \<longleftrightarrow>
   (\<exists>g rest. gs = gpu_entry g # rest \<and> device_attests lib nv i nonce g \<and> device_loop lib nv (i + 1) nonces = Value (Inr rest))"
  (is "?loop \<longleftrightarrow> ?spec")
proof
  assume ?loop
  then obtain dev report n cert m chain rest where r:
    "nvmlDeviceGetHandleByIndex nv i = Some dev"
    "nvmlDeviceGetConfComputeGpuAttestationReport nv dev nonce = Some (report, n)"
    "nvmlDeviceGetConfComputeGpuCertificate nv dev = Some (cert, m)"
    "der_certs_from_pem_bundle (py_unicode_space lib) (take m cert) = Some chain" "take n report \<noteq> []" "chain \<noteq> []"
    "device_loop lib nv (i + 1) nonces = Value (Inr rest)"
    "gs = \<lparr>gpu_report = b64_encode (take n report), gpu_cert_chain = chain\<rparr> # rest"
    by (auto split: option.splits prod.splits if_splits py.splits sum.splits)
  moreover from r(4) obtain ders where "chain = map b64_encode ders"
    using pem_bundle_loop_encoded unfolding der_certs_from_pem_bundle_def by blast
  ultimately show ?spec
    by (intro exI [of _ "(take n report, ders)"] exI [of _ rest]) (simp add: gpu_entry_def device_attests_def)
next
  assume ?spec
  then show ?loop by (auto simp: device_attests_def gpu_entry_def)
qed

lemma device_loop_iff:
  "device_loop lib nv i nonces = Value (Inr gs) \<longleftrightarrow>
   (\<exists>gpus. gs = map gpu_entry gpus \<and> list_all2 (\<lambda>(j, nonce) g. device_attests lib nv j nonce g) (enumerate i nonces) gpus)"
proof (induction nonces arbitrary: i gs)
  case Nil
  then show ?case by auto
next
  case (Cons nonce nonces)
  show ?case (is "?loop \<longleftrightarrow> ?spec")
  proof
    assume ?loop
    then obtain g gpus where "gs = map gpu_entry (g # gpus)" "device_attests lib nv i nonce g"
        "list_all2 (\<lambda>(j, nonce) g. device_attests lib nv j nonce g) (enumerate (Suc i) nonces) gpus"
      unfolding device_loop_Cons Cons.IH by auto
    then show ?spec by (intro exI [of _ "g # gpus"]) simp
  next
    assume ?spec
    then obtain g gpus where "gs = map gpu_entry (g # gpus)" "device_attests lib nv i nonce g"
        "list_all2 (\<lambda>(j, nonce) g. device_attests lib nv j nonce g) (enumerate (Suc i) nonces) gpus"
      by (auto simp: list_all2_Cons1)
    then show ?loop unfolding device_loop_Cons Cons.IH by (intro exI [of _ g] exI [of _ "map gpu_entry gpus"]) auto
  qed
qed

text \<open>When the challenges are 32 bytes, the helper gets back what the service handed over.\<close>

lemma hex_val_ascii: "hex_val b \<noteq> None \<Longrightarrow> b < 0x80"
  by (auto simp: hex_val_def word_le_nat_alt word_less_nat_alt split: if_splits)

lemma parse_nonces_encoded: "list_all (\<lambda>n. length n = NONCE_LEN) nonces \<Longrightarrow> parse_nonces (map hex_encode nonces) = Value (Some nonces)"
proof (induction nonces)
  case (Cons n nonces)
  have "list_all (\<lambda>b. b < 0x80) (as_bytes (hex_encode n))"
    using hex_encode_digits hex_val_ascii by (metis list_all_iff)
  with Cons show ?case by simp
qed simp

lemma hex_not_option: "n \<noteq> [] \<Longrightarrow> hex_encode n \<noteq> [] \<and> hd (hex_encode n) \<noteq> CHR ''-''"
proof (cases n)
  case (Cons b bs)
  have "hd (hex_encode n) \<noteq> CHR ''-''"
  proof
    assume "hd (hex_encode n) = CHR ''-''"
    then have "0x2d \<in> set (as_bytes (hex_encode n))" using Cons by auto
    then show False using hex_encode_digits [of "0x2d" n] by (simp add: hex_val_def)
  qed
  then show ?thesis using Cons by simp
qed simp

lemma parse_args_nonces:
  assumes "argparse_append lib" "nonces \<noteq> []" "list_all (\<lambda>n. length n = NONCE_LEN) nonces"
  shows "parse_args lib (gpu_args nonces) = Inr (map hex_encode nonces)"
proof -
  have "list_all (\<lambda>v. v \<noteq> [] \<and> hd v \<noteq> CHR ''-'') (map hex_encode nonces)"
  proof (unfold list_all_iff, intro ballI)
    fix v assume "v \<in> set (map hex_encode nonces)"
    then obtain n where "v = hex_encode n" "n \<in> set nonces" by auto
    moreover from this(2) assms(3) have "n \<noteq> []" by (auto simp: list_all_iff NONCE_LEN_def)
    ultimately show "v \<noteq> [] \<and> hd v \<noteq> CHR ''-''" using hex_not_option by simp
  qed
  then have "parse_args lib (concat (map (\<lambda>v. [''--nonce-hex'', v]) (map hex_encode nonces))) = Inr (map hex_encode nonces)"
    using assms(1,2) unfolding argparse_append_def by blast
  then show ?thesis by (simp add: gpu_args_def comp_def)
qed

text \<open>When the helper exits with code 0 and what it then prints.\<close>

lemma helper_try_iff:
  "helper_try lib nv nonces = Value (Inr gs) \<longleftrightarrow>
   nvmlDeviceGetCount nv = Some (length nonces) \<and>
   (\<exists>cc. nvmlSystemGetConfComputeState nv = Some (Some cc) \<and> cc \<noteq> 0) \<and>
   multi_gpu_mode nv = Value NVML_CC_SYSTEM_MULTIGPU_NVLE \<and>
   device_loop lib nv 0 nonces = Value (Inr gs)"
  by (auto simp: helper_try_def split: option.splits py.splits if_splits)

definition board_attests :: "py_lib \<Rightarrow> 'd nvml \<Rightarrow> bytes list \<Rightarrow> (bytes \<times> bytes list) list \<Rightarrow> bool" where
  "board_attests lib nv nonces gpus \<longleftrightarrow>
     nvmlInit nv \<and> nvmlShutdown nv \<and>
     nvmlDeviceGetCount nv = Some (length nonces) \<and>
     (\<exists>cc. nvmlSystemGetConfComputeState nv = Some (Some cc) \<and> cc \<noteq> 0) \<and>
     multi_gpu_mode nv = Value NVML_CC_SYSTEM_MULTIGPU_NVLE \<and>
     length gpus = length nonces \<and>
     (\<forall>i < length nonces. device_attests lib nv i (nonces ! i) (gpus ! i))"

lemma helper_try_board:
  "(\<exists>gs. helper_try lib nv nonces = Value (Inr gs) \<and> P gs) \<and> nvmlInit nv \<and> nvmlShutdown nv \<longleftrightarrow>
   (\<exists>gpus. board_attests lib nv nonces gpus \<and> P (map gpu_entry gpus))"
  unfolding helper_try_iff device_loop_iff board_attests_def list_all2_conv_all_nth
  by (simp add: nth_enumerate_eq cong: conj_cong) metis

lemma device_loop_code: "device_loop lib nv i nonces = Value (Inl code) \<Longrightarrow> code = 1"
  by (induction nonces arbitrary: i) (auto split: option.splits prod.splits if_splits py.splits sum.splits)

lemma helper_try_code: "helper_try lib nv nonces = Value (Inl code) \<Longrightarrow> code = 1"
  by (auto simp: helper_try_def dest: device_loop_code split: option.splits py.splits if_splits)

lemma helper_main_success:
  assumes "argparse_append lib" "nonces \<noteq> []" "list_all (\<lambda>n. length n = NONCE_LEN) nonces"
  shows "helper_main lib nv (gpu_args nonces) = (0, out) \<longleftrightarrow>
    (\<exists>gpus. board_attests lib nv nonces gpus \<and> out = json_dump lib (map gpu_entry gpus))"
proof -
  have "helper_main lib nv (gpu_args nonces) = (0, out) \<longleftrightarrow>
    (\<exists>gs. helper_try lib nv nonces = Value (Inr gs) \<and> out = json_dump lib gs) \<and> nvmlInit nv \<and> nvmlShutdown nv"
    using parse_args_nonces [OF assms] parse_nonces_encoded [OF assms(3)]
    by (auto simp: helper_main_def dest: helper_try_code split: py.splits sum.splits if_splits)
  then show ?thesis by (simp only: helper_try_board)
qed

lemma collect_entries: "board_attests lib nv nonces gpus \<Longrightarrow> collect_opt decode_gpu (map gpu_entry gpus) = Some gpus"
proof -
  assume board: "board_attests lib nv nonces gpus"
  have "decode_gpu (gpu_entry g) = Some g" if "g \<in> set gpus" for g
  proof -
    from that obtain i where "i < length gpus" "g = gpus ! i" by (auto simp: in_set_conv_nth)
    then have "device_attests lib nv i (nonces ! i) g" using board by (simp add: board_attests_def)
    then show ?thesis by (auto simp: device_attests_def intro!: decode_gpu_entry)
  qed
  then show ?thesis using collect_opt_map_Some [of gpus decode_gpu gpu_entry "\<lambda>g. g"] by simp
qed

lemma gpu_reports_board:
  assumes "runs_helper lib nv glib" "argparse_append lib" "json_roundtrip lib glib"
    and "nonces \<noteq> []" "list_all (\<lambda>n. length n = NONCE_LEN) nonces"
  shows "gpu_reports_all glib nonces = Some gpus \<longleftrightarrow> board_attests lib nv nonces gpus"
proof
  assume all: "gpu_reports_all glib nonces = Some gpus"
  then obtain out gs where out: "helper_main lib nv (gpu_args nonces) = (0, out)" "helper_from_slice glib out = Some gs"
      "collect_opt decode_gpu gs = Some gpus"
    using assms(1)
    by (auto simp: gpu_reports_all_def runs_helper_def Let_def prod_eq_iff split: option.splits if_splits)
  then obtain gpus' where "board_attests lib nv nonces gpus'" "out = json_dump lib (map gpu_entry gpus')"
    using helper_main_success [OF assms(2,4,5)] by auto
  then show "board_attests lib nv nonces gpus"
    using out(2,3) assms(3) collect_entries [of lib nv nonces gpus'] by (simp add: json_roundtrip_def)
next
  assume board: "board_attests lib nv nonces gpus"
  then have "helper_main lib nv (gpu_args nonces) = (0, json_dump lib (map gpu_entry gpus))"
    using helper_main_success [OF assms(2,4,5)] by blast
  moreover have "length gpus = length nonces" using board by (simp add: board_attests_def)
  ultimately show "gpu_reports_all glib nonces = Some gpus"
    using assms(1,3) collect_entries [OF board]
    by (simp add: gpu_reports_all_def runs_helper_def json_roundtrip_def Let_def)
qed

text \<open>
  C13: the service and the GPU helper together attest the whole board or nothing. With the helper as the program the service runs,
  and for any number of 32-byte challenges, \<^verbatim>\<open>gpu_reports_all\<close> returns reports exactly when the board has as many GPUs as there are
  challenges, is in confidential mode with encrypted NVLink, and every device gave a report and a certificate
  bundle; the list it returns is then, slot by slot, device \<open>i\<close>'s report on challenge \<open>i\<close> and the certificates of its bundle.
\<close>

theorem gpu_reports_cover_board:
  assumes "runs_helper lib nv glib" "argparse_append lib" "json_roundtrip lib glib"
    and "nonces \<noteq> []" "list_all (\<lambda>n. length n = NONCE_LEN) nonces"
  shows "gpu_reports_all glib nonces = Some gpus \<longleftrightarrow> board_attests lib nv nonces gpus"
  using assms by (rule gpu_reports_board)

subsection \<open>A board with one GPU\<close>

text \<open>A concrete wire format in the place of JSON: a list is its elements, each behind a 1, and a final 0.\<close>

definition enc_many :: "('a \<Rightarrow> bytes) \<Rightarrow> 'a list \<Rightarrow> bytes" where
  "enc_many e xs = concat (map (\<lambda>x. 1 # e x) xs) @ [0]"

fun dec_many :: "(bytes \<Rightarrow> ('a \<times> bytes) option) \<Rightarrow> nat \<Rightarrow> bytes \<Rightarrow> ('a list \<times> bytes) option" where
  "dec_many d (Suc n) (b # bs) =
     (if b = 0 then Some ([], bs)
      else (case d bs of None \<Rightarrow> None | Some (x, bs') \<Rightarrow> map_option (map_prod ((#) x) id) (dec_many d n bs')))"
| "dec_many d _ _ = None"

definition dec_list :: "(bytes \<Rightarrow> ('a \<times> bytes) option) \<Rightarrow> bytes \<Rightarrow> ('a list \<times> bytes) option" where
  "dec_list d bs = dec_many d (length bs) bs"

lemma dec_many_enc:
  assumes "\<And>x t. d (e x @ t) = Some (x, t)"
  shows "length xs < n \<Longrightarrow> dec_many d n (enc_many e xs @ t) = Some (xs, t)"
proof (induction xs arbitrary: n)
  case Nil
  then show ?case by (cases n) (simp_all add: enc_many_def)
next
  case (Cons x xs)
  then show ?case using assms by (cases n) (simp_all add: enc_many_def)
qed

lemma dec_list_enc:
  assumes "\<And>x t. d (e x @ t) = Some (x, t)"
  shows "dec_list d (enc_many e xs @ t) = Some (xs, t)"
proof -
  have "length xs < length (enc_many e xs @ t)" unfolding enc_many_def by (induction xs) auto
  then show ?thesis unfolding dec_list_def by (rule dec_many_enc [OF assms])
qed

definition dec_char :: "bytes \<Rightarrow> (char \<times> bytes) option" where
  "dec_char bs = (case bs of [] \<Rightarrow> None | b # bs' \<Rightarrow> Some (char_of (unat b), bs'))"

definition enc_gpu :: "gpu \<Rightarrow> bytes" where
  "enc_gpu g = enc_many (\<lambda>c. [of_char c]) (gpu_report g) @ enc_many (enc_many (\<lambda>c. [of_char c])) (gpu_cert_chain g)"

definition dec_gpu :: "bytes \<Rightarrow> (gpu \<times> bytes) option" where
  "dec_gpu bs =
     (case dec_list dec_char bs of None \<Rightarrow> None
      | Some (r, bs') \<Rightarrow> (case dec_list (dec_list dec_char) bs' of None \<Rightarrow> None
        | Some (c, bs'') \<Rightarrow> Some (\<lparr>gpu_report = r, gpu_cert_chain = c\<rparr>, bs'')))"

lemma dec_char_enc: "dec_char ([of_char c] @ t) = Some (c, t)"
  using of_bytes_as_bytes [of "[c]"] by (simp add: dec_char_def of_bytes_def)

lemma dec_gpu_enc: "dec_gpu (enc_gpu g @ t) = Some (g, t)"
  by (simp add: dec_gpu_def enc_gpu_def dec_list_enc [OF dec_char_enc] dec_list_enc [OF dec_list_enc [OF dec_char_enc]])

fun demo_parse :: "string list \<Rightarrow> nat + string list" where
  "demo_parse (opt # v # rest) =
     (if opt = ''--nonce-hex'' then (if rest = [] then Inr [v] else map_sum id ((#) v) (demo_parse rest)) else Inl 2)"
| "demo_parse _ = Inl 2"

definition demo_py :: py_lib where
  "demo_py = \<lparr>parse_args = demo_parse, json_dump = enc_many enc_gpu, py_unicode_space = (\<lambda>_. False)\<rparr>"

definition demo_nvml :: "nat nvml" where
  "demo_nvml = \<lparr>nvmlInit = True, nvmlDeviceGetCount = Some 1, nvmlSystemGetConfComputeState = Some (Some 1),
     nvmlSystemGetConfComputeSettings = Some (None, Some 2), nvmlDeviceGetHandleByIndex = Some,
     nvmlDeviceGetConfComputeGpuAttestationReport = (\<lambda>dev nonce. Some ([9, hd nonce, 0, 0], 2)),
     nvmlDeviceGetConfComputeGpuCertificate = (\<lambda>dev. Some (pem_text [[CHR 0x0a] @ ''AQ'' @ [CHR 0x0a] @ ''ID''] @ [0], 59)), nvmlShutdown = True\<rparr>"

definition demo_helper :: gpu_lib where
  "demo_helper = \<lparr>IRON_GPU_REPORT_CMD = None,
     command_output = (\<lambda>cmd args. Some (fst (helper_main demo_py demo_nvml args) = 0, snd (helper_main demo_py demo_nvml args))),
     helper_from_slice = map_option fst \<circ> dec_list dec_gpu\<rparr>"

lemma demo_append: "argparse_append demo_py"
proof -
  have "vs \<noteq> [] \<Longrightarrow> demo_parse (concat (map (\<lambda>v. [''--nonce-hex'', v]) vs)) = Inr vs" for vs
    by (induction vs) auto
  then show ?thesis by (simp add: argparse_append_def demo_py_def)
qed

lemma demo_json: "json_roundtrip demo_py demo_helper"
  using dec_list_enc [of dec_gpu enc_gpu _ "[]", OF dec_gpu_enc]
  by (simp add: json_roundtrip_def demo_py_def demo_helper_def)

lemma demo_chain: "der_certs_from_pem_bundle us (pem_text [[CHR 0x0a] @ ''AQ'' @ [CHR 0x0a] @ ''ID'']) = Some [b64_encode [1, 2, 3]]"
proof -
  have "wraps ([CHR 0x0a] @ ''AQ'' @ [CHR 0x0a] @ ''ID'') [1, 2, 3]"
    by (simp add: wraps_def plain_def ascii_space_def b64_quad_def sextet_def B64_def)
  then show ?thesis using der_certs_roundtrip [of "[[CHR 0x0a] @ ''AQ'' @ [CHR 0x0a] @ ''ID'']" "[[1, 2, 3]]"] by simp
qed

theorem gpu_reports_cover_board_witness:
  "gpu_reports_all demo_helper [replicate 32 7] = Some [([9, 7], [[1, 2, 3]])]"
proof -
  have board: "board_attests demo_py demo_nvml [replicate 32 7] [([9, 7], [[1, 2, 3]])]"
    using demo_chain
    by (simp add: board_attests_def device_attests_def demo_nvml_def multi_gpu_mode_def NVML_CC_SYSTEM_MULTIGPU_NVLE_def
        PEM_BEGIN_def PEM_END_def demo_py_def)
  have "runs_helper demo_py demo_nvml demo_helper" by (simp add: runs_helper_def demo_helper_def)
  from gpu_reports_cover_board [OF this demo_append demo_json, of "[replicate 32 7]" "[([9, 7], [[1, 2, 3]])]"] board
  show ?thesis by (simp add: NONCE_LEN_def)
qed

end
