(* ===== verification/Store_Lock.thy ===== *)
theory Store_Lock
  imports Store_Machine
begin

text \<open>
  The lock around the member store (\<^verbatim>\<open>read_guard\<close> and \<^verbatim>\<open>write_guard\<close> in \<^verbatim>\<open>src/src/state.rs\<close>). A \<^verbatim>\<open>std::sync::RwLock\<close> is
  poisoned once a thread panics while it holds the write guard; from then on \<^verbatim>\<open>read\<close> and \<^verbatim>\<open>write\<close> return an error that
  still holds the guard. The store unwraps that error into the guard. Shown: an execution in which
  threads die holding the lock serves every call as if none had.
\<close>

record 'a rw_lock =
  guarded :: 'a
  poisoned :: bool

text \<open>\<^verbatim>\<open>RwLock::read\<close> and \<^verbatim>\<open>RwLock::write\<close>: \<open>Inl\<close> is the \<^verbatim>\<open>PoisonError\<close> with the guard in it.\<close>

definition rw_acquire :: "'a rw_lock \<Rightarrow> 'a + 'a" where
  "rw_acquire l = (if poisoned l then Inl (guarded l) else Inr (guarded l))"

definition into_inner :: "'a \<Rightarrow> 'a" where
  "into_inner e = e"

definition unwrap_or_else :: "('e \<Rightarrow> 'a) \<Rightarrow> 'e + 'a \<Rightarrow> 'a" where
  "unwrap_or_else f r = (case r of Inl e \<Rightarrow> f e | Inr v \<Rightarrow> v)"

definition read_guard :: "inner rw_lock \<Rightarrow> inner" where
  "read_guard l = unwrap_or_else into_inner (rw_acquire l)"

definition write_guard :: "inner rw_lock \<Rightarrow> inner" where
  "write_guard l = unwrap_or_else into_inner (rw_acquire l)"

text \<open>A call under the write guard; \<open>dies\<close> when the thread panics before it drops the guard.\<close>

definition locked_call :: "(inner \<Rightarrow> 'b \<times> inner) \<Rightarrow> bool \<Rightarrow> inner rw_lock \<Rightarrow> 'b \<times> inner rw_lock" where
  "locked_call f dies l = (let (r, s') = f (write_guard l) in (r, \<lparr>guarded = s', poisoned = poisoned l \<or> dies\<rparr>))"

text \<open>The calls of a history, each with its answer.\<close>

fun locked_run :: "((inner \<Rightarrow> 'b \<times> inner) \<times> bool) list \<Rightarrow> inner rw_lock \<Rightarrow> 'b list \<times> inner rw_lock" where
  "locked_run [] l = ([], l)"
| "locked_run ((f, dies) # cs) l =
     (let (r, l1) = locked_call f dies l; (rs, l2) = locked_run cs l1 in (r # rs, l2))"

fun plain_run :: "(inner \<Rightarrow> 'b \<times> inner) list \<Rightarrow> inner \<Rightarrow> 'b list \<times> inner" where
  "plain_run [] s = ([], s)"
| "plain_run (f # fs) s = (let (r, s1) = f s; (rs, s2) = plain_run fs s1 in (r # rs, s2))"

lemma guard_ignores_poison [simp]: "read_guard l = guarded l" "write_guard l = guarded l"
  by (simp_all add: read_guard_def write_guard_def unwrap_or_else_def rw_acquire_def into_inner_def)

lemma locked_run_plain:
  "fst (locked_run cs l) = fst (plain_run (map fst cs) (guarded l)) \<and>
   guarded (snd (locked_run cs l)) = snd (plain_run (map fst cs) (guarded l))"
  by (induction cs arbitrary: l) (auto simp: locked_call_def case_prod_unfold Let_def)

text \<open>
  No thread can take the store down. Whatever calls are made on the shared store, and whichever of the calling
  threads die while they hold the lock, every call gets the answer, and the store ends in the state, that
  the same calls give on the bare store; each query under the read guard sees that state.
\<close>

theorem poison_is_recovered:
  "fst (locked_run cs l) = fst (plain_run (map fst cs) (guarded l)) \<and>
   write_guard (snd (locked_run cs l)) = snd (plain_run (map fst cs) (guarded l)) \<and>
   read_guard (snd (locked_run cs l)) = snd (plain_run (map fst cs) (guarded l))"
  by (simp add: locked_run_plain)

end
