(* ===== verification/Sha1_Vectors.thy ===== *)
theory Sha1_Vectors
  imports Uuid_V5
begin

text \<open>
  The published test vectors of \<^verbatim>\<open>sha1\<close>, and the golden UUID, that the unit tests of \<^verbatim>\<open>src/src/lib.rs\<close> assert, evaluated by the
  kernel on the definitions of \<^verbatim>\<open>Sha1_Digest\<close>. A digest of one block is computed in pieces: the message schedule eight words at a
  time, the rounds twenty at a time, each piece against the expected intermediate values.
\<close>

definition sha1_extend_step :: "nat \<Rightarrow> u32 list \<Rightarrow> u32 list" where
  "sha1_extend_step i w = w[i := word_rotl 1 (w ! (i - 3) XOR w ! (i - 8) XOR w ! (i - 14) XOR w ! (i - 16))]"

definition words_chunk :: "u32 list \<Rightarrow> nat \<Rightarrow> bool" where
  "words_chunk W n \<longleftrightarrow>
     fold sha1_extend_step [n..<n + 8] (take n W @ replicate (80 - n) 0) = take (n + 8) W @ replicate (72 - n) 0"

definition rounds_chunk :: "u32 list \<Rightarrow> nat \<Rightarrow> sha1_state \<Rightarrow> sha1_state \<Rightarrow> bool" where
  "rounds_chunk W n s t \<longleftrightarrow> fold sha1_round (map (\<lambda>i. (i, W ! i)) [n..<n + 20]) s = t"

lemma upt_80:
  "[16..<80] = [16..<24] @ [24..<32] @ [32..<40] @ [40..<48] @ [48..<56] @ [56..<64] @ [64..<72] @ [72..<80]"
  "[0..<80] = [0..<20] @ [20..<40] @ [40..<60] @ [60..<80]"
  by code_simp+

lemma extend_chunks:
  assumes "length W = 80" "words_chunk W 16" "words_chunk W 24" "words_chunk W 32" "words_chunk W 40"
    "words_chunk W 48" "words_chunk W 56" "words_chunk W 64" "words_chunk W 72"
  shows "sha1_extend (take 16 W @ replicate 64 0) = W"
proof -
  have "sha1_extend w = fold sha1_extend_step [16..<80] w" for w
    unfolding sha1_extend_def sha1_extend_step_def ..
  then show ?thesis using assms by (simp add: words_chunk_def upt_80(1) del: upt_Suc)
qed

lemma round_chunks:
  assumes "length W = 80" "rounds_chunk W 0 s0 s1" "rounds_chunk W 20 s1 s2" "rounds_chunk W 40 s2 s3" "rounds_chunk W 60 s3 s4"
  shows "fold sha1_round (enumerate 0 W) s0 = s4"
proof -
  have "enumerate 0 W = map (\<lambda>i. (i, W ! i)) [0..<80]"
    using assms(1) by (intro nth_equalityI) (simp_all add: nth_enumerate_eq)
  then show ?thesis using assms(2-) by (simp add: rounds_chunk_def upt_80(2) del: upt_Suc)
qed

lemma sha1_one_block:
  assumes "length (sha1_message data) = 64" "length W = 80"
    "sha1_load (sha1_message data) (replicate 80 0) = take 16 W @ replicate 64 0"
    "words_chunk W 16" "words_chunk W 24" "words_chunk W 32" "words_chunk W 40"
    "words_chunk W 48" "words_chunk W 56" "words_chunk W 64" "words_chunk W 72"
    "rounds_chunk W 0 (0x67452301, 0xEFCDAB89, 0x98BADCFE, 0x10325476, 0xC3D2E1F0) s1" "rounds_chunk W 20 s1 s2"
    "rounds_chunk W 40 s2 s3" "rounds_chunk W 60 s3 (a, b, c, d, e)"
  shows "sha1 data =
    concat (map u32_to_be_bytes [0x67452301 + a, 0xEFCDAB89 + b, 0x98BADCFE + c, 0x10325476 + d, 0xC3D2E1F0 + e])"
proof -
  have w: "sha1_schedule (sha1_message data) = W"
    using extend_chunks [OF assms(2,4-11)] assms(3) by (simp add: sha1_schedule_def)
  have blocks: "chunks_exact 64 (sha1_message data) = [sha1_message data]"
    using assms(1) by (simp add: chunks_exact.simps [of 64])
  show ?thesis
    using round_chunks [OF assms(2,12-15)] by (simp add: sha1_def blocks sha1_block_def w sha1_iv_def)
qed

subsection \<open>The vectors\<close>

definition abc_words :: "u32 list" where
  "abc_words =
     [0x61626380, 0x00000000, 0x00000000, 0x00000000, 0x00000000, 0x00000000, 0x00000000, 0x00000000,
      0x00000000, 0x00000000, 0x00000000, 0x00000000, 0x00000000, 0x00000000, 0x00000000, 0x00000018,
      0xc2c4c700, 0x00000000, 0x00000030, 0x85898e01, 0x00000000, 0x00000060, 0x0b131c03, 0x00000030,
      0x85898ec1, 0x16263806, 0x00000000, 0x00000180, 0x2c4c700c, 0x000000f0, 0x93afb507, 0x5898e048,
      0x8e9a9202, 0x00000600, 0xb131c0f0, 0x16263bc6, 0x4ebed41e, 0x626380a1, 0x16263806, 0x000018c0,
      0xd2e138c4, 0x00000f00, 0x3afb5079, 0x898e04e5, 0xe2ba3c2b, 0x000060c0, 0x053a37cd, 0x74458547,
      0xda9415ed, 0x26380a16, 0x626383a1, 0x4ebf54de, 0x3835b44b, 0x0000f600, 0x1e84c7a3, 0x98e04d98,
      0x651d16a0, 0x62658ca1, 0x458544d6, 0x44584cb7, 0x7ba06619, 0x6380aea2, 0x0ae55269, 0x627b49a1,
      0x7cd45c9d, 0x000f0000, 0xfb50753a, 0xec6765e8, 0xba3c2be2, 0x0060c000, 0x3a37cd05, 0x458546f4,
      0xb8599dd6, 0x380a1a26, 0x01e02203, 0xe7cc3456, 0xe6e60b69, 0x00f60a00, 0x5795ef4f, 0x822e0879]"

lemma abc_schedule:
  "length (sha1_message (as_bytes ''abc'')) = 64" "length abc_words = 80"
  "sha1_load (sha1_message (as_bytes ''abc'')) (replicate 80 0) = take 16 abc_words @ replicate 64 0"
  "words_chunk abc_words 16" "words_chunk abc_words 24"
  "words_chunk abc_words 32" "words_chunk abc_words 40"
  "words_chunk abc_words 48" "words_chunk abc_words 56"
  "words_chunk abc_words 64" "words_chunk abc_words 72"
  by code_simp+

lemma abc_rounds:
  "rounds_chunk abc_words 0
     (0x67452301, 0xefcdab89, 0x98badcfe, 0x10325476, 0xc3d2e1f0)
     (0xfd9e1d7d, 0xdc64901d, 0x20aa99ca, 0xd3a49608, 0xc82f758b)"
  "rounds_chunk abc_words 20
     (0xfd9e1d7d, 0xdc64901d, 0x20aa99ca, 0xd3a49608, 0xc82f758b)
     (0x32de1cba, 0x4c986405, 0xf718e5cf, 0x03d447f6, 0xf72eec32)"
  "rounds_chunk abc_words 40
     (0x32de1cba, 0x4c986405, 0xf718e5cf, 0x03d447f6, 0xf72eec32)
     (0x3f52de5a, 0x09d785fd, 0x3498bfd4, 0xf211824f, 0xd79915ab)"
  "rounds_chunk abc_words 60
     (0x3f52de5a, 0x09d785fd, 0x3498bfd4, 0xf211824f, 0xd79915ab)
     (0x42541b35, 0x5738d5e1, 0x21834873, 0x681e6df6, 0xd8fdf6ad)"
  by code_simp+

definition empty_words :: "u32 list" where
  "empty_words =
     [0x80000000, 0x00000000, 0x00000000, 0x00000000, 0x00000000, 0x00000000, 0x00000000, 0x00000000,
      0x00000000, 0x00000000, 0x00000000, 0x00000000, 0x00000000, 0x00000000, 0x00000000, 0x00000000,
      0x00000001, 0x00000000, 0x00000000, 0x00000002, 0x00000000, 0x00000000, 0x00000004, 0x00000000,
      0x00000002, 0x00000008, 0x00000000, 0x00000000, 0x00000010, 0x00000000, 0x0000000a, 0x00000020,
      0x00000006, 0x00000000, 0x00000040, 0x00000008, 0x00000028, 0x00000080, 0x00000008, 0x00000000,
      0x00000108, 0x00000000, 0x000000a0, 0x00000200, 0x00000064, 0x00000000, 0x00000408, 0x00000088,
      0x0000029c, 0x00000800, 0x00000080, 0x00000028, 0x00001088, 0x00000000, 0x00000a40, 0x00002000,
      0x00000668, 0x00000080, 0x00004088, 0x00000880, 0x000028c8, 0x00008000, 0x000008a8, 0x00000080,
      0x000108e8, 0x00000000, 0x0000a000, 0x00020080, 0x00006400, 0x00000000, 0x00040800, 0x00008800,
      0x00029c10, 0x00080000, 0x00008080, 0x00002820, 0x001088c0, 0x00000000, 0x000a40c0, 0x00200080]"

lemma empty_schedule:
  "length (sha1_message []) = 64" "length empty_words = 80"
  "sha1_load (sha1_message []) (replicate 80 0) = take 16 empty_words @ replicate 64 0"
  "words_chunk empty_words 16" "words_chunk empty_words 24"
  "words_chunk empty_words 32" "words_chunk empty_words 40"
  "words_chunk empty_words 48" "words_chunk empty_words 56"
  "words_chunk empty_words 64" "words_chunk empty_words 72"
  by code_simp+

lemma empty_rounds:
  "rounds_chunk empty_words 0
     (0x67452301, 0xefcdab89, 0x98badcfe, 0x10325476, 0xc3d2e1f0)
     (0xe758e8da, 0x0b3088dd, 0x8a2a5483, 0xc1afe45c, 0xf63f5951)"
  "rounds_chunk empty_words 20
     (0xe758e8da, 0x0b3088dd, 0x8a2a5483, 0xc1afe45c, 0xf63f5951)
     (0x9bdbdd71, 0x62273351, 0xec805e22, 0x413c1d9a, 0x2aeeae62)"
  "rounds_chunk empty_words 40
     (0x9bdbdd71, 0x62273351, 0xec805e22, 0x413c1d9a, 0x2aeeae62)
     (0x9b9d2913, 0x982bcbca, 0xb86beac8, 0xc5a3382e, 0xaf9292fa)"
  "rounds_chunk empty_words 60
     (0x9b9d2913, 0x982bcbca, 0xb86beac8, 0xc5a3382e, 0xaf9292fa)
     (0x72f480ed, 0x6e9d9f84, 0x999ae2f1, 0x852dc41a, 0xec052519)"
  by code_simp+

text \<open>The pinned namespace and the subject of the orchestrator's golden value.\<close>

definition golden_namespace :: bytes where
  "golden_namespace =
     [0xda, 0xfb, 0x6e, 0x23, 0x9c, 0x4d, 0x5d, 0x27, 0xaa, 0x05, 0x3f, 0x6c, 0x2e, 0x9e, 0x7b, 0x14]"

definition golden_words :: "u32 list" where
  "golden_words =
     [0xdafb6e23, 0x9c4d5d27, 0xaa053f6c, 0x2e9e7b14, 0x74657374, 0x2d737562, 0x2d303030, 0x80000000,
      0x00000000, 0x00000000, 0x00000000, 0x00000000, 0x00000000, 0x00000000, 0x00000000, 0x000000e0,
      0xe1fca29e, 0x65a64c67, 0xbcc099f1, 0xc42359d1, 0x79e61e46, 0x2367d926, 0xd226d3c3, 0xf3cc3d4d,
      0x8536f771, 0x6f013f49, 0x9e194978, 0x822b5d40, 0x2dce421e, 0x7afd217d, 0x63e2583b, 0x774867a9,
      0x45efdac7, 0x5acce589, 0x58ef52cc, 0x41000ee0, 0xb984d425, 0xe5732fb5, 0xebe4e4d2, 0xa4036310,
      0x776696f7, 0xb804c6a4, 0x9e767574, 0x9d61c855, 0x9f581148, 0xed60382a, 0xa1115cf6, 0x2dbfe0f0,
      0x0e0c4dad, 0x05b2e276, 0xa54426da, 0x6e3d495a, 0x91158793, 0x12a8a4aa, 0xa75ccf12, 0x415b85af,
      0xeb681509, 0x0f16472b, 0xca638e93, 0xeaa95859, 0x40951a0d, 0x3029e5c6, 0xc5d10c21, 0x53873a48,
      0xe0133770, 0x4291c04d, 0x5b6a2b25, 0xec5f05b2, 0x689b2582, 0x7161dfcc, 0xcb75a710, 0xeaa3ba9c,
      0x60f2e64d, 0xd8b6f05e, 0x767e0a4e, 0xac5abcc0, 0x6ad387e0, 0xc9621418, 0x85da4102, 0x22cd8ef3]"

lemma golden_schedule:
  "length (sha1_message (golden_namespace @ as_bytes ''test-sub-000'')) = 64" "length golden_words = 80"
  "sha1_load (sha1_message (golden_namespace @ as_bytes ''test-sub-000'')) (replicate 80 0) = take 16 golden_words @ replicate 64 0"
  "words_chunk golden_words 16" "words_chunk golden_words 24"
  "words_chunk golden_words 32" "words_chunk golden_words 40"
  "words_chunk golden_words 48" "words_chunk golden_words 56"
  "words_chunk golden_words 64" "words_chunk golden_words 72"
  by code_simp+

lemma golden_rounds:
  "rounds_chunk golden_words 0
     (0x67452301, 0xefcdab89, 0x98badcfe, 0x10325476, 0xc3d2e1f0)
     (0x8d17ec1d, 0xb205b4a4, 0xc160a463, 0xf393508c, 0x1c78c19f)"
  "rounds_chunk golden_words 20
     (0x8d17ec1d, 0xb205b4a4, 0xc160a463, 0xf393508c, 0x1c78c19f)
     (0x9d47ed37, 0xa03e72d7, 0x24709b2f, 0x7c89ed56, 0x9e4bcae1)"
  "rounds_chunk golden_words 40
     (0x9d47ed37, 0xa03e72d7, 0x24709b2f, 0x7c89ed56, 0x9e4bcae1)
     (0xf81af237, 0xc5b22290, 0xa27b0c03, 0xcf2ad516, 0x1c70b858)"
  "rounds_chunk golden_words 60
     (0xf81af237, 0xc5b22290, 0xa27b0c03, 0xcf2ad516, 0x1c70b858)
     (0xa68c2361, 0x959ef3ac, 0x022a57d0, 0x936d089d, 0xf1a53f9b)"
  by code_simp+

lemma sha1_abc: "hex_encode (sha1 (as_bytes ''abc'')) = ''a9993e364706816aba3e25717850c26c9cd0d89d''"
  by (subst sha1_one_block [OF abc_schedule abc_rounds]) code_simp

lemma sha1_empty: "hex_encode (sha1 []) = ''da39a3ee5e6b4b0d3255bfef95601890afd80709''"
  by (subst sha1_one_block [OF empty_schedule empty_rounds]) code_simp

lemma uuid_v5_golden: "uuid_v5 golden_namespace (as_bytes ''test-sub-000'') = ''0dd14662-856c-5f35-9ae5-34cea39f5d13''"
  unfolding uuid_v5_def uuid_v5_bytes_def
  by (subst sha1_one_block [OF golden_schedule golden_rounds]) code_simp

end
