(* ===== verification/Sha256_Vectors.thy ===== *)
theory Sha256_Vectors
  imports Sha1_Digest Attestation
begin

text \<open>
  SHA-256 as FIPS 180-4 defines it: the function the crate \<^verbatim>\<open>sha2\<close> documents, as a concrete instance of the digest that is a parameter elsewhere. The
  golden values of the GPU challenges that a unit test of \<^verbatim>\<open>src/src/attestation.rs\<close> asserts are evaluated on it by the kernel, block by
  block: the message schedule eight words at a time, the rounds sixteen at a time, each piece against the expected intermediate values.
\<close>

subsection \<open>FIPS 180-4\<close>

type_synonym sha256_state = "u32 \<times> u32 \<times> u32 \<times> u32 \<times> u32 \<times> u32 \<times> u32 \<times> u32"

text \<open>The first 64 primes, each with the first 32 bits of the fractional part of its cube root.\<close>

definition sha256_roots :: "(int \<times> u32) list" where
  "sha256_roots =
     [(2, 0x428a2f98), (3, 0x71374491), (5, 0xb5c0fbcf), (7, 0xe9b5dba5), (11, 0x3956c25b), (13, 0x59f111f1),
      (17, 0x923f82a4), (19, 0xab1c5ed5), (23, 0xd807aa98), (29, 0x12835b01), (31, 0x243185be), (37, 0x550c7dc3),
      (41, 0x72be5d74), (43, 0x80deb1fe), (47, 0x9bdc06a7), (53, 0xc19bf174), (59, 0xe49b69c1), (61, 0xefbe4786),
      (67, 0x0fc19dc6), (71, 0x240ca1cc), (73, 0x2de92c6f), (79, 0x4a7484aa), (83, 0x5cb0a9dc), (89, 0x76f988da),
      (97, 0x983e5152), (101, 0xa831c66d), (103, 0xb00327c8), (107, 0xbf597fc7), (109, 0xc6e00bf3), (113, 0xd5a79147),
      (127, 0x06ca6351), (131, 0x14292967), (137, 0x27b70a85), (139, 0x2e1b2138), (149, 0x4d2c6dfc), (151, 0x53380d13),
      (157, 0x650a7354), (163, 0x766a0abb), (167, 0x81c2c92e), (173, 0x92722c85), (179, 0xa2bfe8a1), (181, 0xa81a664b),
      (191, 0xc24b8b70), (193, 0xc76c51a3), (197, 0xd192e819), (199, 0xd6990624), (211, 0xf40e3585), (223, 0x106aa070),
      (227, 0x19a4c116), (229, 0x1e376c08), (233, 0x2748774c), (239, 0x34b0bcb5), (241, 0x391c0cb3), (251, 0x4ed8aa4a),
      (257, 0x5b9cca4f), (263, 0x682e6ff3), (269, 0x748f82ee), (271, 0x78a5636f), (277, 0x84c87814), (281, 0x8cc70208),
      (283, 0x90befffa), (293, 0xa4506ceb), (307, 0xbef9a3f7), (311, 0xc67178f2)]"

definition sha256_k :: "u32 list" where
  "sha256_k = map snd sha256_roots"

text \<open>\<open>i\<close> is the integer part of the cube root of the prime.\<close>

lemma sha256_roots_exact:
  "list_all (\<lambda>(p, k). list_ex (\<lambda>i. (i * 2 ^ 32 + uint k) ^ 3 \<le> p * 2 ^ 96 \<and> p * 2 ^ 96 < (i * 2 ^ 32 + uint k + 1) ^ 3)
     [1, 2, 3, 4, 5, 6]) sha256_roots"
  by code_simp

definition sha256_iv :: sha256_state where
  "sha256_iv =
     (0x6a09e667, 0xbb67ae85, 0x3c6ef372, 0xa54ff53a, 0x510e527f, 0x9b05688c, 0x1f83d9ab, 0x5be0cd19)"

definition sha256_message :: "bytes \<Rightarrow> bytes" where
  "sha256_message data =
     data @ [0x80] @ replicate ((119 - length data mod 64) mod 64) 0 @
     u64_to_be_bytes (word_of_nat (8 * length data))"

fun be_words :: "bytes \<Rightarrow> u32 list" where
  "be_words (b0 # b1 # b2 # b3 # bs) = u32_from_be_bytes b0 b1 b2 b3 # be_words bs"
| "be_words _ = []"

definition sha256_extend_step :: "nat \<Rightarrow> u32 list \<Rightarrow> u32 list" where
  "sha256_extend_step i w =
     (let x = w ! (i - 15); y = w ! (i - 2) in
      w @ [(word_rotr 17 y XOR word_rotr 19 y XOR drop_bit 10 y) + w ! (i - 7) +
           (word_rotr 7 x XOR word_rotr 18 x XOR drop_bit 3 x) + w ! (i - 16)])"

definition sha256_round :: "u32 \<times> u32 \<Rightarrow> sha256_state \<Rightarrow> sha256_state" where
  "sha256_round kw s =
     (case s of (a, b, c, d, e, f, g, h) \<Rightarrow>
        (let t1 = h + (word_rotr 6 e XOR word_rotr 11 e XOR word_rotr 25 e) + ((e AND f) XOR (NOT e AND g)) + fst kw + snd kw;
             t2 = (word_rotr 2 a XOR word_rotr 13 a XOR word_rotr 22 a) + ((a AND b) XOR (a AND c) XOR (b AND c))
         in (t1 + t2, a, b, c, d + t1, e, f, g)))"

definition add_state :: "sha256_state \<Rightarrow> sha256_state \<Rightarrow> sha256_state" where
  "add_state s t =
     (case s of (a, b, c, d, e, f, g, h) \<Rightarrow> case t of (a', b', c', d', e', f', g', h') \<Rightarrow>
        (a + a', b + b', c + c', d + d', e + e', f + f', g + g', h + h'))"

definition sha256_block :: "bytes \<Rightarrow> sha256_state \<Rightarrow> sha256_state" where
  "sha256_block block s = add_state s (fold sha256_round (zip sha256_k (fold sha256_extend_step [16..<64] (be_words block))) s)"

definition sha256_fips :: "bytes \<Rightarrow> bytes" where
  "sha256_fips data =
     (case fold sha256_block (chunks_exact 64 (sha256_message data)) sha256_iv of (a, b, c, d, e, f, g, h) \<Rightarrow>
        concat (map u32_to_be_bytes [a, b, c, d, e, f, g, h]))"

subsection \<open>Evaluating one block in pieces\<close>

definition words256_chunk :: "u32 list \<Rightarrow> nat \<Rightarrow> bool" where
  "words256_chunk W n \<longleftrightarrow> fold sha256_extend_step [n..<n + 8] (take n W) = take (n + 8) W"

definition rounds256_chunk :: "u32 list \<Rightarrow> nat \<Rightarrow> sha256_state \<Rightarrow> sha256_state \<Rightarrow> bool" where
  "rounds256_chunk W n s t \<longleftrightarrow> fold sha256_round (zip (take 16 (drop n sha256_k)) (take 16 (drop n W))) s = t"

lemma upt_64: "[16..<64] = [16..<24] @ [24..<32] @ [32..<40] @ [40..<48] @ [48..<56] @ [56..<64]"
  by code_simp

lemma split_16:
  assumes "length xs = 64"
  shows "xs = take 16 (drop 0 xs) @ take 16 (drop 16 xs) @ take 16 (drop 32 xs) @ take 16 (drop 48 xs)"
proof -
  have "take 16 (drop 48 xs) = drop 48 xs" using assms by simp
  moreover have "drop 32 xs = take 16 (drop 32 xs) @ drop 48 xs" using append_take_drop_id [of 16 "drop 32 xs"] by simp
  moreover have "drop 16 xs = take 16 (drop 16 xs) @ drop 32 xs" using append_take_drop_id [of 16 "drop 16 xs"] by simp
  moreover have "xs = take 16 xs @ drop 16 xs" by simp
  ultimately show ?thesis by (metis drop0)
qed

lemma sha256_block_eval:
  assumes "length W = 64" "be_words block = take 16 W"
    "words256_chunk W 16" "words256_chunk W 24" "words256_chunk W 32" "words256_chunk W 40" "words256_chunk W 48" "words256_chunk W 56"
    "rounds256_chunk W 0 s s1" "rounds256_chunk W 16 s1 s2" "rounds256_chunk W 32 s2 s3" "rounds256_chunk W 48 s3 s4"
  shows "sha256_block block s = add_state s s4"
proof -
  have w: "fold sha256_extend_step [16..<64] (be_words block) = W"
    using assms(1-8) by (simp add: words256_chunk_def upt_64 del: upt_Suc)
  have k: "length sha256_k = 64" by (simp add: sha256_k_def sha256_roots_def)
  have "zip sha256_k W =
    zip (take 16 (drop 0 sha256_k)) (take 16 (drop 0 W)) @ zip (take 16 (drop 16 sha256_k)) (take 16 (drop 16 W)) @
    zip (take 16 (drop 32 sha256_k)) (take 16 (drop 32 W)) @ zip (take 16 (drop 48 sha256_k)) (take 16 (drop 48 W))"
    by (subst split_16 [OF k], subst split_16 [OF assms(1)]) (simp add: k assms(1) zip_append)
  then have "fold sha256_round (zip sha256_k W) s = s4"
    using assms(9-12) unfolding rounds256_chunk_def by (simp only: fold_append comp_apply)
  then show ?thesis by (simp only: sha256_block_def w)
qed

text \<open>Two blocks: the inputs of the test have 91 and 65 bytes.\<close>

lemma sha256_two_blocks:
  assumes "sha256_message data = b1 @ b2" "length b1 = 64" "length b2 = 64"
    "sha256_block b1 sha256_iv = s" "sha256_block b2 s = (a, b, c, d, e, f, g, h)"
  shows "sha256_fips data = concat (map u32_to_be_bytes [a, b, c, d, e, f, g, h])"
proof -
  have "chunks_exact 64 (sha256_message data) = [b1, b2]"
    using assms(1-3) by (simp add: chunks_exact.simps [of 64])
  then show ?thesis using assms(4,5) by (simp add: sha256_fips_def)
qed

subsection \<open>The blocks\<close>

text \<open>\<^verbatim>\<open>(0u8..32)\<close> and \<^verbatim>\<open>(0..91u8).map(|i| i ^ 0xA5)\<close>.\<close>

definition test_nonce :: bytes where
  "test_nonce = map word_of_nat [0..<32]"

definition test_spki :: bytes where
  "test_spki = map (\<lambda>i. word_of_nat i XOR 0xa5) [0..<91]"

definition spki_head :: bytes where
  "spki_head =
     [0xa5, 0xa4, 0xa7, 0xa6, 0xa1, 0xa0, 0xa3, 0xa2, 0xad, 0xac, 0xaf, 0xae, 0xa9, 0xa8, 0xab, 0xaa,
      0xb5, 0xb4, 0xb7, 0xb6, 0xb1, 0xb0, 0xb3, 0xb2, 0xbd, 0xbc, 0xbf, 0xbe, 0xb9, 0xb8, 0xbb, 0xba,
      0x85, 0x84, 0x87, 0x86, 0x81, 0x80, 0x83, 0x82, 0x8d, 0x8c, 0x8f, 0x8e, 0x89, 0x88, 0x8b, 0x8a,
      0x95, 0x94, 0x97, 0x96, 0x91, 0x90, 0x93, 0x92, 0x9d, 0x9c, 0x9f, 0x9e, 0x99, 0x98, 0x9b, 0x9a]"

definition spki_head_words :: "u32 list" where
  "spki_head_words =
     [0xa5a4a7a6, 0xa1a0a3a2, 0xadacafae, 0xa9a8abaa, 0xb5b4b7b6, 0xb1b0b3b2, 0xbdbcbfbe, 0xb9b8bbba,
      0x85848786, 0x81808382, 0x8d8c8f8e, 0x89888b8a, 0x95949796, 0x91909392, 0x9d9c9f9e, 0x99989b9a,
      0x7ce122dd, 0xf0cb14ca, 0x56ec5324, 0x7e2daaed, 0x4ae24184, 0xf4a530f0, 0x0ce03883, 0xb14f64bf,
      0xc7762d49, 0x669a7f8a, 0x05b6e35d, 0x5f14c4c7, 0x4bf3af8c, 0xa2cc5b19, 0xf1f7d8eb, 0x05a8d832,
      0x499ae61c, 0xc45967f7, 0xa56394b5, 0xfafe0582, 0x59d5aceb, 0xb291abd5, 0x26ec617d, 0xdbd96e79,
      0xd065049b, 0xa92e25cb, 0xd80cdb32, 0x896bdc3f, 0x27290af8, 0x9f5b14d6, 0xc4aef073, 0x470ba2b9,
      0x47ce2c8c, 0xdc4c699c, 0x9e604b8d, 0x92a5bfe0, 0xfd842138, 0xc638ac07, 0xb5ceee95, 0xd3e4cf78,
      0x626c00d5, 0x8e7330e8, 0x844b6ff2, 0x3b504232, 0x43682adb, 0xc17c0502, 0x3b7b068e, 0xc6de5359]"

lemma spki_head_schedule:
  "length spki_head_words = 64" "be_words spki_head = take 16 spki_head_words"
  "words256_chunk spki_head_words 16" "words256_chunk spki_head_words 24" "words256_chunk spki_head_words 32"
  "words256_chunk spki_head_words 40" "words256_chunk spki_head_words 48" "words256_chunk spki_head_words 56"
  by code_simp+

lemma spki_head_rounds:
  "rounds256_chunk spki_head_words 0
     (0x6a09e667, 0xbb67ae85, 0x3c6ef372, 0xa54ff53a, 0x510e527f, 0x9b05688c, 0x1f83d9ab, 0x5be0cd19)
     (0xf72b614e, 0x83cb3eb7, 0xb4defea2, 0xecd6a24f, 0x7c604d70, 0x43aee6fa, 0x01e47f2e, 0xe04bb5b7)"
  "rounds256_chunk spki_head_words 16
     (0xf72b614e, 0x83cb3eb7, 0xb4defea2, 0xecd6a24f, 0x7c604d70, 0x43aee6fa, 0x01e47f2e, 0xe04bb5b7)
     (0x2e110773, 0xe83bb5ce, 0xa4291038, 0xde315423, 0x3f85eb6e, 0x2b9b62b5, 0x775593b0, 0xef233c1e)"
  "rounds256_chunk spki_head_words 32
     (0x2e110773, 0xe83bb5ce, 0xa4291038, 0xde315423, 0x3f85eb6e, 0x2b9b62b5, 0x775593b0, 0xef233c1e)
     (0x0d850b1f, 0xc72ea0a0, 0x0f4c5e53, 0xcd341e63, 0x437eb9f8, 0xd4b91a88, 0xab666a74, 0x7589572d)"
  "rounds256_chunk spki_head_words 48
     (0x0d850b1f, 0xc72ea0a0, 0x0f4c5e53, 0xcd341e63, 0x437eb9f8, 0xd4b91a88, 0xab666a74, 0x7589572d)
     (0x108ad62e, 0x86461e1a, 0xdfe901bc, 0xc504af87, 0x51df90db, 0x305178f0, 0x5287ba5b, 0x12b99b5c)"
  by code_simp+

lemma spki_head_result:
  "sha256_block spki_head
     (0x6a09e667, 0xbb67ae85, 0x3c6ef372, 0xa54ff53a, 0x510e527f, 0x9b05688c, 0x1f83d9ab, 0x5be0cd19) =
     (0x7a94bc95, 0x41adcc9f, 0x1c57f52e, 0x6a54a4c1, 0xa2ede35a, 0xcb56e17c, 0x720b9406, 0x6e9a6875)"
  by (subst sha256_block_eval [OF spki_head_schedule spki_head_rounds]) code_simp

definition spki_tail :: bytes where
  "spki_tail =
     [0xe5, 0xe4, 0xe7, 0xe6, 0xe1, 0xe0, 0xe3, 0xe2, 0xed, 0xec, 0xef, 0xee, 0xe9, 0xe8, 0xeb, 0xea,
      0xf5, 0xf4, 0xf7, 0xf6, 0xf1, 0xf0, 0xf3, 0xf2, 0xfd, 0xfc, 0xff, 0x80, 0x00, 0x00, 0x00, 0x00,
      0x00, 0x00, 0x00, 0x00, 0x00, 0x00, 0x00, 0x00, 0x00, 0x00, 0x00, 0x00, 0x00, 0x00, 0x00, 0x00,
      0x00, 0x00, 0x00, 0x00, 0x00, 0x00, 0x00, 0x00, 0x00, 0x00, 0x00, 0x00, 0x00, 0x00, 0x02, 0xd8]"

definition spki_tail_words :: "u32 list" where
  "spki_tail_words =
     [0xe5e4e7e6, 0xe1e0e3e2, 0xedecefee, 0xe9e8ebea, 0xf5f4f7f6, 0xf1f0f3f2, 0xfdfcff80, 0x00000000,
      0x00000000, 0x00000000, 0x00000000, 0x00000000, 0x00000000, 0x00000000, 0x00000000, 0x000002d8,
      0xc6ec4da9, 0xdeb5e33b, 0x8f51c776, 0x065ef04a, 0x988c7e0e, 0xb9c321ba, 0xaeddbea0, 0xbbb0c8ba,
      0x4765d915, 0x0cb6ae12, 0x5e18c272, 0x1b54e874, 0x332404b9, 0x98101a9a, 0xef2e400f, 0xadd8178e,
      0xd085dda9, 0xd315d3b3, 0x28d2858d, 0x9ec17cbd, 0xed3eea7e, 0x760e55ce, 0x5531911a, 0xc0a13dff,
      0xa34214d5, 0xcedd21f6, 0x16f42686, 0xb2b66146, 0x615d5496, 0x7c213d93, 0xbd944386, 0x495aca6d,
      0x5228511b, 0xe49c14fb, 0x360dfaf6, 0xe3dc96ff, 0xb2e6d25b, 0x67865851, 0xfac1080e, 0x3420bc22,
      0xe951ea14, 0x55d65ac7, 0xc6a587c4, 0xc197f1d4, 0xa227ba8f, 0x87eaf238, 0x7d166af0, 0x82ceec40]"

lemma spki_tail_schedule:
  "length spki_tail_words = 64" "be_words spki_tail = take 16 spki_tail_words"
  "words256_chunk spki_tail_words 16" "words256_chunk spki_tail_words 24" "words256_chunk spki_tail_words 32"
  "words256_chunk spki_tail_words 40" "words256_chunk spki_tail_words 48" "words256_chunk spki_tail_words 56"
  by code_simp+

lemma spki_tail_rounds:
  "rounds256_chunk spki_tail_words 0
     (0x7a94bc95, 0x41adcc9f, 0x1c57f52e, 0x6a54a4c1, 0xa2ede35a, 0xcb56e17c, 0x720b9406, 0x6e9a6875)
     (0x6414888b, 0xe0ab76ae, 0xe1264793, 0xce06130f, 0x2e8c69b7, 0x6d74f862, 0x10a63c1f, 0xcc0a8588)"
  "rounds256_chunk spki_tail_words 16
     (0x6414888b, 0xe0ab76ae, 0xe1264793, 0xce06130f, 0x2e8c69b7, 0x6d74f862, 0x10a63c1f, 0xcc0a8588)
     (0x501e9706, 0x5a604df9, 0xc76a8ee1, 0xc4fa3e99, 0x57deebef, 0x0286ab2c, 0x39277f88, 0x8f051807)"
  "rounds256_chunk spki_tail_words 32
     (0x501e9706, 0x5a604df9, 0xc76a8ee1, 0xc4fa3e99, 0x57deebef, 0x0286ab2c, 0x39277f88, 0x8f051807)
     (0xb3d79850, 0xf881a638, 0xa101c182, 0x0b6905a0, 0x8d296f50, 0xde67604b, 0x2f903914, 0x3b32c2f7)"
  "rounds256_chunk spki_tail_words 48
     (0xb3d79850, 0xf881a638, 0xa101c182, 0x0b6905a0, 0x8d296f50, 0xde67604b, 0x2f903914, 0x3b32c2f7)
     (0x7efedeb5, 0x7f72ad72, 0xb5c0bb4e, 0x3089e2db, 0x254192fe, 0x93dcdc9c, 0x6d1ea809, 0xa0b36a2a)"
  by code_simp+

lemma spki_tail_result:
  "sha256_block spki_tail
     (0x7a94bc95, 0x41adcc9f, 0x1c57f52e, 0x6a54a4c1, 0xa2ede35a, 0xcb56e17c, 0x720b9406, 0x6e9a6875) =
     (0xf9939b4a, 0xc1207a11, 0xd218b07c, 0x9ade879c, 0xc82f7658, 0x5f33be18, 0xdf2a3c0f, 0x0f4dd29f)"
  by (subst sha256_block_eval [OF spki_tail_schedule spki_tail_rounds]) code_simp

definition gpu_head :: bytes where
  "gpu_head =
     [0x00, 0x01, 0x02, 0x03, 0x04, 0x05, 0x06, 0x07, 0x08, 0x09, 0x0a, 0x0b, 0x0c, 0x0d, 0x0e, 0x0f,
      0x10, 0x11, 0x12, 0x13, 0x14, 0x15, 0x16, 0x17, 0x18, 0x19, 0x1a, 0x1b, 0x1c, 0x1d, 0x1e, 0x1f,
      0xf9, 0x93, 0x9b, 0x4a, 0xc1, 0x20, 0x7a, 0x11, 0xd2, 0x18, 0xb0, 0x7c, 0x9a, 0xde, 0x87, 0x9c,
      0xc8, 0x2f, 0x76, 0x58, 0x5f, 0x33, 0xbe, 0x18, 0xdf, 0x2a, 0x3c, 0x0f, 0x0f, 0x4d, 0xd2, 0x9f]"

definition gpu_head_words :: "u32 list" where
  "gpu_head_words =
     [0x00010203, 0x04050607, 0x08090a0b, 0x0c0d0e0f, 0x10111213, 0x14151617, 0x18191a1b, 0x1c1d1e1f,
      0xf9939b4a, 0xc1207a11, 0xd218b07c, 0x9ade879c, 0xc82f7658, 0x5f33be18, 0xdf2a3c0f, 0x0f4dd29f,
      0x69dcc6e0, 0x7ed15d15, 0xfab85969, 0xba1aedae, 0x001b8a33, 0x9241368c, 0x5603329e, 0xafc11a5f,
      0x9c90996a, 0x3a20b9c1, 0x777c2371, 0x5bd3c675, 0xc519feb0, 0xdc72c74b, 0x9afb74e3, 0xe3aa3035,
      0xeb2b584c, 0x2f6a2ce3, 0x0efe08ec, 0x57aa9b85, 0xe8c60acc, 0x46b08cab, 0xe9e3865b, 0xd3af6f93,
      0x2b17d03c, 0x880b5d1d, 0xf18a9dc9, 0x102e8681, 0x67107a29, 0x633d6e24, 0x9cb2aa76, 0x7c307a86,
      0xbc14c0ed, 0xaefb06df, 0xbe2c4fd2, 0xa8d5298e, 0x77b19dd0, 0x60b9391a, 0x499a21f0, 0xd4b661e7,
      0x2c3d41ac, 0x6dd22524, 0x44ce2df6, 0x1eb46aa0, 0xba475c8f, 0xb90dc8e0, 0xd541b8c2, 0x0271a3a0]"

lemma gpu_head_schedule:
  "length gpu_head_words = 64" "be_words gpu_head = take 16 gpu_head_words"
  "words256_chunk gpu_head_words 16" "words256_chunk gpu_head_words 24" "words256_chunk gpu_head_words 32"
  "words256_chunk gpu_head_words 40" "words256_chunk gpu_head_words 48" "words256_chunk gpu_head_words 56"
  by code_simp+

lemma gpu_head_rounds:
  "rounds256_chunk gpu_head_words 0
     (0x6a09e667, 0xbb67ae85, 0x3c6ef372, 0xa54ff53a, 0x510e527f, 0x9b05688c, 0x1f83d9ab, 0x5be0cd19)
     (0xc355fe53, 0xac793d0d, 0x45f51207, 0x768d3eae, 0x6e2fd0c0, 0x59884f1b, 0xba000c72, 0x6d486e39)"
  "rounds256_chunk gpu_head_words 16
     (0xc355fe53, 0xac793d0d, 0x45f51207, 0x768d3eae, 0x6e2fd0c0, 0x59884f1b, 0xba000c72, 0x6d486e39)
     (0x241fce5a, 0x83e9857f, 0x670a247c, 0x8f6a8c2f, 0xfbbddcf3, 0xf1c119af, 0xd0e9b949, 0xd37af89b)"
  "rounds256_chunk gpu_head_words 32
     (0x241fce5a, 0x83e9857f, 0x670a247c, 0x8f6a8c2f, 0xfbbddcf3, 0xf1c119af, 0xd0e9b949, 0xd37af89b)
     (0xebc14251, 0xa66365cb, 0x07e10db8, 0xf6e5531b, 0xe5a69fe4, 0x0ecc3b01, 0x66ed5f4e, 0x804218be)"
  "rounds256_chunk gpu_head_words 48
     (0xebc14251, 0xa66365cb, 0x07e10db8, 0xf6e5531b, 0xe5a69fe4, 0x0ecc3b01, 0x66ed5f4e, 0x804218be)
     (0xc4169f9f, 0xa38d6d3b, 0x2b5b3691, 0xcc2cac6c, 0x40f4422d, 0xaa0c7a06, 0xeb871c07, 0x9a72b236)"
  by code_simp+

lemma gpu_head_result:
  "sha256_block gpu_head
     (0x6a09e667, 0xbb67ae85, 0x3c6ef372, 0xa54ff53a, 0x510e527f, 0x9b05688c, 0x1f83d9ab, 0x5be0cd19) =
     (0x2e208606, 0x5ef51bc0, 0x67ca2a03, 0x717ca1a6, 0x920294ac, 0x4511e292, 0x0b0af5b2, 0xf6537f4f)"
  by (subst sha256_block_eval [OF gpu_head_schedule gpu_head_rounds]) code_simp

definition gpu_tail0 :: bytes where
  "gpu_tail0 =
     [0x00, 0x80, 0x00, 0x00, 0x00, 0x00, 0x00, 0x00, 0x00, 0x00, 0x00, 0x00, 0x00, 0x00, 0x00, 0x00,
      0x00, 0x00, 0x00, 0x00, 0x00, 0x00, 0x00, 0x00, 0x00, 0x00, 0x00, 0x00, 0x00, 0x00, 0x00, 0x00,
      0x00, 0x00, 0x00, 0x00, 0x00, 0x00, 0x00, 0x00, 0x00, 0x00, 0x00, 0x00, 0x00, 0x00, 0x00, 0x00,
      0x00, 0x00, 0x00, 0x00, 0x00, 0x00, 0x00, 0x00, 0x00, 0x00, 0x00, 0x00, 0x00, 0x00, 0x02, 0x08]"

definition gpu_tail0_words :: "u32 list" where
  "gpu_tail0_words =
     [0x00800000, 0x00000000, 0x00000000, 0x00000000, 0x00000000, 0x00000000, 0x00000000, 0x00000000,
      0x00000000, 0x00000000, 0x00000000, 0x00000000, 0x00000000, 0x00000000, 0x00000000, 0x00000208,
      0x00800000, 0x01450000, 0x00002050, 0x200051ca, 0x14220008, 0x22d45414, 0x4000021d, 0xa1002025,
      0x02a20800, 0x143e44f8, 0x6500fb51, 0xff080711, 0x85b03232, 0x43550481, 0xd1009ecc, 0x257366a9,
      0xb17421d0, 0xede2ea69, 0x1838bd97, 0x60a138fc, 0xda10905c, 0xe155d731, 0x16f24738, 0x260be1a2,
      0xbf9558b8, 0x4a221fa7, 0x0ae250e9, 0x9e80238d, 0x153d8068, 0x14094ef5, 0xf6978b0b, 0x32e22a5b,
      0xa56d45d3, 0x4b8223c0, 0x7c1e5bb4, 0x524a8b4c, 0xdef1fe88, 0xd0063ddf, 0xc35d1ce1, 0xd57ce944,
      0xf92d603d, 0xf773f68a, 0x796248b6, 0xb5b3ea01, 0x0dabe797, 0x4bd1103d, 0x95fdcf8f, 0xb8af1ed8]"

lemma gpu_tail0_schedule:
  "length gpu_tail0_words = 64" "be_words gpu_tail0 = take 16 gpu_tail0_words"
  "words256_chunk gpu_tail0_words 16" "words256_chunk gpu_tail0_words 24" "words256_chunk gpu_tail0_words 32"
  "words256_chunk gpu_tail0_words 40" "words256_chunk gpu_tail0_words 48" "words256_chunk gpu_tail0_words 56"
  by code_simp+

lemma gpu_tail0_rounds:
  "rounds256_chunk gpu_tail0_words 0
     (0x2e208606, 0x5ef51bc0, 0x67ca2a03, 0x717ca1a6, 0x920294ac, 0x4511e292, 0x0b0af5b2, 0xf6537f4f)
     (0xcfb68aa4, 0x0269dd5e, 0xa228f948, 0x95e44076, 0xba21ec6f, 0x2d72f41d, 0x8ad94943, 0x7df41a2b)"
  "rounds256_chunk gpu_tail0_words 16
     (0xcfb68aa4, 0x0269dd5e, 0xa228f948, 0x95e44076, 0xba21ec6f, 0x2d72f41d, 0x8ad94943, 0x7df41a2b)
     (0xcdeb79d6, 0x5c5429e2, 0x0fc885c0, 0x688824cc, 0xf4e52b39, 0x193d3622, 0x9fcc2ce9, 0xa6a5ef4c)"
  "rounds256_chunk gpu_tail0_words 32
     (0xcdeb79d6, 0x5c5429e2, 0x0fc885c0, 0x688824cc, 0xf4e52b39, 0x193d3622, 0x9fcc2ce9, 0xa6a5ef4c)
     (0xc1d54e1e, 0xbd210dc7, 0xdbdc90dd, 0x07a6703f, 0x51d01843, 0xe2950378, 0x212b3645, 0x4dc7f12a)"
  "rounds256_chunk gpu_tail0_words 48
     (0xc1d54e1e, 0xbd210dc7, 0xdbdc90dd, 0x07a6703f, 0x51d01843, 0xe2950378, 0x212b3645, 0x4dc7f12a)
     (0x84fa3d3a, 0xce6d691c, 0x03999276, 0x0bac080e, 0x7e7970c7, 0xc7edf0cd, 0x37297c88, 0xdeb6d44f)"
  by code_simp+

lemma gpu_tail0_result:
  "sha256_block gpu_tail0
     (0x2e208606, 0x5ef51bc0, 0x67ca2a03, 0x717ca1a6, 0x920294ac, 0x4511e292, 0x0b0af5b2, 0xf6537f4f) =
     (0xb31ac340, 0x2d6284dc, 0x6b63bc79, 0x7d28a9b4, 0x107c0573, 0x0cffd35f, 0x4234723a, 0xd50a539e)"
  by (subst sha256_block_eval [OF gpu_tail0_schedule gpu_tail0_rounds]) code_simp

definition gpu_tail1 :: bytes where
  "gpu_tail1 =
     [0x01, 0x80, 0x00, 0x00, 0x00, 0x00, 0x00, 0x00, 0x00, 0x00, 0x00, 0x00, 0x00, 0x00, 0x00, 0x00,
      0x00, 0x00, 0x00, 0x00, 0x00, 0x00, 0x00, 0x00, 0x00, 0x00, 0x00, 0x00, 0x00, 0x00, 0x00, 0x00,
      0x00, 0x00, 0x00, 0x00, 0x00, 0x00, 0x00, 0x00, 0x00, 0x00, 0x00, 0x00, 0x00, 0x00, 0x00, 0x00,
      0x00, 0x00, 0x00, 0x00, 0x00, 0x00, 0x00, 0x00, 0x00, 0x00, 0x00, 0x00, 0x00, 0x00, 0x02, 0x08]"

definition gpu_tail1_words :: "u32 list" where
  "gpu_tail1_words =
     [0x01800000, 0x00000000, 0x00000000, 0x00000000, 0x00000000, 0x00000000, 0x00000000, 0x00000000,
      0x00000000, 0x00000000, 0x00000000, 0x00000000, 0x00000000, 0x00000000, 0x00000000, 0x00000208,
      0x01800000, 0x01450000, 0x000060f0, 0x200051ca, 0x3c660018, 0x22d45414, 0xc0000247, 0xa2002025,
      0x02a01800, 0x143f4638, 0x2f00facc, 0x88440761, 0x8508a672, 0x437ee672, 0xfa587076, 0xb2bad0d1,
      0x8bf4a504, 0x5ae04969, 0xd2771498, 0x8a8a3994, 0x21eaffd9, 0x10192b70, 0xe9e80e53, 0xe5181506,
      0x077be877, 0x91de5866, 0x16805cfb, 0x6d82993c, 0x107ecd46, 0x3babd114, 0x9f869e14, 0x7e0588b3,
      0x8675da05, 0xd57d302b, 0x4c7f0e39, 0xe2b798b5, 0x6d5e749e, 0xa88ed61b, 0x70ddcf6b, 0x326ebcee,
      0x843fcd73, 0x4c0779fa, 0xeb930090, 0x6c311c64, 0x74b55346, 0xf77a5177, 0xe0dc9a20, 0xd2316355]"

lemma gpu_tail1_schedule:
  "length gpu_tail1_words = 64" "be_words gpu_tail1 = take 16 gpu_tail1_words"
  "words256_chunk gpu_tail1_words 16" "words256_chunk gpu_tail1_words 24" "words256_chunk gpu_tail1_words 32"
  "words256_chunk gpu_tail1_words 40" "words256_chunk gpu_tail1_words 48" "words256_chunk gpu_tail1_words 56"
  by code_simp+

lemma gpu_tail1_rounds:
  "rounds256_chunk gpu_tail1_words 0
     (0x2e208606, 0x5ef51bc0, 0x67ca2a03, 0x717ca1a6, 0x920294ac, 0x4511e292, 0x0b0af5b2, 0xf6537f4f)
     (0x803d02cd, 0x5cb51bd5, 0x3a62bc26, 0x040aac9e, 0xb1d2a42f, 0x7a50572b, 0xb0f6072d, 0x9b669be1)"
  "rounds256_chunk gpu_tail1_words 16
     (0x803d02cd, 0x5cb51bd5, 0x3a62bc26, 0x040aac9e, 0xb1d2a42f, 0x7a50572b, 0xb0f6072d, 0x9b669be1)
     (0x75c79758, 0x1f47e0fe, 0x06689c0a, 0xa799b29e, 0x5cc3882c, 0xcc317ac2, 0xdff60b25, 0x0ba8ca8a)"
  "rounds256_chunk gpu_tail1_words 32
     (0x75c79758, 0x1f47e0fe, 0x06689c0a, 0xa799b29e, 0x5cc3882c, 0xcc317ac2, 0xdff60b25, 0x0ba8ca8a)
     (0x438d88b5, 0xc0703d8e, 0x680142a0, 0x87bc90fd, 0x49e0bf26, 0x33d66a89, 0xa5b4009d, 0x17f896de)"
  "rounds256_chunk gpu_tail1_words 48
     (0x438d88b5, 0xc0703d8e, 0x680142a0, 0x87bc90fd, 0x49e0bf26, 0x33d66a89, 0xa5b4009d, 0x17f896de)
     (0x4511d280, 0x634f580e, 0x7c16689a, 0x1460ee00, 0x04e20aea, 0x0975cba9, 0xe26faa66, 0x2ec7dcb7)"
  by code_simp+

lemma gpu_tail1_result:
  "sha256_block gpu_tail1
     (0x2e208606, 0x5ef51bc0, 0x67ca2a03, 0x717ca1a6, 0x920294ac, 0x4511e292, 0x0b0af5b2, 0xf6537f4f) =
     (0x73325886, 0xc24473ce, 0xe3e0929d, 0x85dd8fa6, 0x96e49f96, 0x4e87ae3b, 0xed7aa018, 0x251b5c06)"
  by (subst sha256_block_eval [OF gpu_tail1_schedule gpu_tail1_rounds]) code_simp

definition gpu_tail7 :: bytes where
  "gpu_tail7 =
     [0x07, 0x80, 0x00, 0x00, 0x00, 0x00, 0x00, 0x00, 0x00, 0x00, 0x00, 0x00, 0x00, 0x00, 0x00, 0x00,
      0x00, 0x00, 0x00, 0x00, 0x00, 0x00, 0x00, 0x00, 0x00, 0x00, 0x00, 0x00, 0x00, 0x00, 0x00, 0x00,
      0x00, 0x00, 0x00, 0x00, 0x00, 0x00, 0x00, 0x00, 0x00, 0x00, 0x00, 0x00, 0x00, 0x00, 0x00, 0x00,
      0x00, 0x00, 0x00, 0x00, 0x00, 0x00, 0x00, 0x00, 0x00, 0x00, 0x00, 0x00, 0x00, 0x00, 0x02, 0x08]"

definition gpu_tail7_words :: "u32 list" where
  "gpu_tail7_words =
     [0x07800000, 0x00000000, 0x00000000, 0x00000000, 0x00000000, 0x00000000, 0x00000000, 0x00000000,
      0x00000000, 0x00000000, 0x00000000, 0x00000000, 0x00000000, 0x00000000, 0x00000000, 0x00000208,
      0x07800000, 0x01450000, 0x0001e330, 0x200051ca, 0xcdfe0078, 0x22d45414, 0xc00002c8, 0xa8002025,
      0x02527800, 0x143e4438, 0x9300e7c7, 0xb89c0781, 0x92144fed, 0x431ecf24, 0x66b21ec5, 0xc1b7ea47,
      0xa88c2191, 0xb56d9c7e, 0xd1a12faa, 0x97ec88a3, 0xfc4b54ea, 0xe818e55e, 0x98e88ecc, 0x5d19dc50,
      0xf1fbaac8, 0x604cd131, 0xe0715f6a, 0x822bb16d, 0xf1ba5a69, 0x8c6dd7f5, 0x97360682, 0x42fff82f,
      0x59668daa, 0x9d5fc688, 0x633dcd51, 0xc4a43127, 0x815816d0, 0xc77506a8, 0xc187acf1, 0x3f9fce81,
      0x0db785ff, 0x803e6fa0, 0xfe72dce2, 0x58d66b57, 0x7e6a1f9b, 0xdd3500e1, 0xcbc8efcc, 0x6e07a1a1]"

lemma gpu_tail7_schedule:
  "length gpu_tail7_words = 64" "be_words gpu_tail7 = take 16 gpu_tail7_words"
  "words256_chunk gpu_tail7_words 16" "words256_chunk gpu_tail7_words 24" "words256_chunk gpu_tail7_words 32"
  "words256_chunk gpu_tail7_words 40" "words256_chunk gpu_tail7_words 48" "words256_chunk gpu_tail7_words 56"
  by code_simp+

lemma gpu_tail7_rounds:
  "rounds256_chunk gpu_tail7_words 0
     (0x2e208606, 0x5ef51bc0, 0x67ca2a03, 0x717ca1a6, 0x920294ac, 0x4511e292, 0x0b0af5b2, 0xf6537f4f)
     (0x7de9b10d, 0x4a8e2f87, 0x1af852ca, 0xe3fdee1c, 0x72a84042, 0x08faa4f6, 0xf8cfd9be, 0xca462620)"
  "rounds256_chunk gpu_tail7_words 16
     (0x7de9b10d, 0x4a8e2f87, 0x1af852ca, 0xe3fdee1c, 0x72a84042, 0x08faa4f6, 0xf8cfd9be, 0xca462620)
     (0x180be8c7, 0x02d72e0a, 0x882856a6, 0xc9f47c39, 0x09c7e5bb, 0x803308bd, 0x1d915c47, 0x36c8ede8)"
  "rounds256_chunk gpu_tail7_words 32
     (0x180be8c7, 0x02d72e0a, 0x882856a6, 0xc9f47c39, 0x09c7e5bb, 0x803308bd, 0x1d915c47, 0x36c8ede8)
     (0x21121bf6, 0x6a36dd9f, 0xb7e27204, 0x5ef591fb, 0x3fbf0c90, 0x972fa570, 0xf2bbc1a0, 0x570bcf49)"
  "rounds256_chunk gpu_tail7_words 48
     (0x21121bf6, 0x6a36dd9f, 0xb7e27204, 0x5ef591fb, 0x3fbf0c90, 0x972fa570, 0xf2bbc1a0, 0x570bcf49)
     (0xddd20a0e, 0x6204cb12, 0x3710f848, 0x196689df, 0x468bf300, 0x06c42987, 0xd4f4ca7b, 0x41640c10)"
  by code_simp+

lemma gpu_tail7_result:
  "sha256_block gpu_tail7
     (0x2e208606, 0x5ef51bc0, 0x67ca2a03, 0x717ca1a6, 0x920294ac, 0x4511e292, 0x0b0af5b2, 0xf6537f4f) =
     (0x0bf29014, 0xc0f9e6d2, 0x9edb224b, 0x8ae32b85, 0xd88e87ac, 0x4bd60c19, 0xdfffc02d, 0x37b78b5f)"
  by (subst sha256_block_eval [OF gpu_tail7_schedule gpu_tail7_rounds]) code_simp

subsection \<open>The digests\<close>

definition spki_digest :: bytes where
  "spki_digest =
     [0xf9, 0x93, 0x9b, 0x4a, 0xc1, 0x20, 0x7a, 0x11, 0xd2, 0x18, 0xb0, 0x7c, 0x9a, 0xde, 0x87, 0x9c,
      0xc8, 0x2f, 0x76, 0x58, 0x5f, 0x33, 0xbe, 0x18, 0xdf, 0x2a, 0x3c, 0x0f, 0x0f, 0x4d, 0xd2, 0x9f]"

lemma sha256_spki: "sha256_fips test_spki = spki_digest"
proof -
  have m: "sha256_message test_spki = spki_head @ spki_tail" "length spki_head = 64" "length spki_tail = 64" by code_simp+
  have "concat (map u32_to_be_bytes
      [0xf9939b4a, 0xc1207a11, 0xd218b07c, 0x9ade879c, 0xc82f7658, 0x5f33be18, 0xdf2a3c0f, 0x0f4dd29f]) = spki_digest" by code_simp
  then show ?thesis
    using sha256_two_blocks [OF m spki_head_result [folded sha256_iv_def] spki_tail_result] by simp
qed

lemma gpu_nonce_0: "hex_encode (derive_gpu_nonce sha256_fips test_nonce spki_digest 0) = ''b31ac3402d6284dc6b63bc797d28a9b4107c05730cffd35f4234723ad50a539e''"
proof -
  have m: "sha256_message (test_nonce @ spki_digest @ [0]) = gpu_head @ gpu_tail0" "length gpu_head = 64" "length gpu_tail0 = 64" by code_simp+
  have "hex_encode (concat (map u32_to_be_bytes
      [0xb31ac340, 0x2d6284dc, 0x6b63bc79, 0x7d28a9b4, 0x107c0573, 0x0cffd35f, 0x4234723a, 0xd50a539e])) = ''b31ac3402d6284dc6b63bc797d28a9b4107c05730cffd35f4234723ad50a539e''" by code_simp
  then show ?thesis
    using sha256_two_blocks [OF m gpu_head_result [folded sha256_iv_def] gpu_tail0_result] by (simp add: derive_gpu_nonce_def)
qed

lemma gpu_nonce_1: "hex_encode (derive_gpu_nonce sha256_fips test_nonce spki_digest 1) = ''73325886c24473cee3e0929d85dd8fa696e49f964e87ae3bed7aa018251b5c06''"
proof -
  have m: "sha256_message (test_nonce @ spki_digest @ [1]) = gpu_head @ gpu_tail1" "length gpu_head = 64" "length gpu_tail1 = 64" by code_simp+
  have "hex_encode (concat (map u32_to_be_bytes
      [0x73325886, 0xc24473ce, 0xe3e0929d, 0x85dd8fa6, 0x96e49f96, 0x4e87ae3b, 0xed7aa018, 0x251b5c06])) = ''73325886c24473cee3e0929d85dd8fa696e49f964e87ae3bed7aa018251b5c06''" by code_simp
  then show ?thesis
    using sha256_two_blocks [OF m gpu_head_result [folded sha256_iv_def] gpu_tail1_result] by (simp add: derive_gpu_nonce_def)
qed

lemma gpu_nonce_7: "hex_encode (derive_gpu_nonce sha256_fips test_nonce spki_digest 7) = ''0bf29014c0f9e6d29edb224b8ae32b85d88e87ac4bd60c19dfffc02d37b78b5f''"
proof -
  have m: "sha256_message (test_nonce @ spki_digest @ [7]) = gpu_head @ gpu_tail7" "length gpu_head = 64" "length gpu_tail7 = 64" by code_simp+
  have "hex_encode (concat (map u32_to_be_bytes
      [0x0bf29014, 0xc0f9e6d2, 0x9edb224b, 0x8ae32b85, 0xd88e87ac, 0x4bd60c19, 0xdfffc02d, 0x37b78b5f])) = ''0bf29014c0f9e6d29edb224b8ae32b85d88e87ac4bd60c19dfffc02d37b78b5f''" by code_simp
  then show ?thesis
    using sha256_two_blocks [OF m gpu_head_result [folded sha256_iv_def] gpu_tail7_result] by (simp add: derive_gpu_nonce_def)
qed

end
