(* ===== verification/Unit_Tests.thy ===== *)
theory Unit_Tests
  imports Sha1_Vectors Sha256_Vectors
begin

text \<open>
  The unit tests inside \<^verbatim>\<open>src/src/lib.rs\<close>, \<^verbatim>\<open>src/src/state.rs\<close> and \<^verbatim>\<open>src/src/attestation.rs\<close>, replayed on the model: each test is a
  definition with the test's calls and assertions in order, and a lemma that it passes. They check the definitions against what
  the authors observed of the code. SHA-256, a crate and a parameter of the model, is the FIPS 180-4 function of \<^verbatim>\<open>Sha256_Vectors\<close> in
  the test of the GPU challenges.
\<close>

subsection \<open>\<^verbatim>\<open>lib.rs\<close>\<close>

definition sha1_fips_vectors :: bool where
  "sha1_fips_vectors \<longleftrightarrow>
     hex_encode (sha1 (as_bytes ''abc'')) = ''a9993e364706816aba3e25717850c26c9cd0d89d'' \<and>
     hex_encode (sha1 (as_bytes [])) = ''da39a3ee5e6b4b0d3255bfef95601890afd80709''"

lemma sha1_fips_vectors_pass: "sha1_fips_vectors"
  unfolding sha1_fips_vectors_def as_bytes_def [of "[]"] using sha1_abc sha1_empty by simp

definition uuid_v5_matches_orchestrator_golden :: bool where
  "uuid_v5_matches_orchestrator_golden \<longleftrightarrow>
     uuid_v5 golden_namespace (as_bytes ''test-sub-000'') = ''0dd14662-856c-5f35-9ae5-34cea39f5d13''"

lemma uuid_v5_matches_orchestrator_golden_passes: "uuid_v5_matches_orchestrator_golden"
  unfolding uuid_v5_matches_orchestrator_golden_def by (rule uuid_v5_golden)

definition b64_decode_both_alphabets :: bool where
  "b64_decode_both_alphabets \<longleftrightarrow>
     b64_decode_any ''SGVsbG8='' = Some (as_bytes ''Hello'') \<and>
     b64_decode_any ''SGVsbG8'' = Some (as_bytes ''Hello'') \<and>
     b64_decode_any ''_--_'' \<noteq> None \<and> b64_decode_any ''_--_'' = b64_decode_any ''/++/''"

lemma b64_decode_both_alphabets_passes: "b64_decode_both_alphabets"
  by code_simp

definition uuid_eq_ignores_case_and_hyphens :: "(bytes \<Rightarrow> bytes) \<Rightarrow> bool" where
  "uuid_eq_ignores_case_and_hyphens ulower \<longleftrightarrow>
     uuid_eq ulower ''0DD14662-856C-5F35-9AE5-34CEA39F5D13'' ''0dd14662856c5f359ae534cea39f5d13''"

lemma uuid_eq_ignores_case_and_hyphens_passes: "uuid_eq_ignores_case_and_hyphens ulower"
  by code_simp

subsection \<open>\<^verbatim>\<open>state.rs\<close>\<close>

definition test_pk :: "u8 \<Rightarrow> pubkey" where
  "test_pk seed = (replicate 65 seed)[0 := 0x04]"

definition test_entry :: "pubkey \<Rightarrow> string \<Rightarrow> member_entry" where
  "test_entry pk token =
     \<lparr>client_pubkey = pk, member_hash = replicate 32 7, session_token = token, original_tx_id = ''tx-1''\<rparr>"

text \<open>A sequence of inserts: whether all answered true, and the store after them.\<close>

fun insert_all :: "member_entry list \<Rightarrow> inner \<Rightarrow> bool \<times> inner" where
  "insert_all [] s = (True, s)"
| "insert_all (e # es) s = (let (ok, s1) = member_insert e s; (oks, s2) = insert_all es s1 in (ok \<and> oks, s2))"

definition a_second_enroll_on_one_pubkey_keeps_the_first_bearer :: bool where
  "a_second_enroll_on_one_pubkey_keeps_the_first_bearer \<longleftrightarrow>
     (let a = test_pk 1;
          (ok, store) = insert_all [test_entry a ''bearer-first'', test_entry a ''bearer-second''] default_inner
      in ok \<and> contains_token ''bearer-first'' store \<and> contains_token ''bearer-second'' store \<and> session_count a store = 2)"

definition bearers_are_capped_by_evicting_the_oldest :: bool where
  "bearers_are_capped_by_evicting_the_oldest \<longleftrightarrow>
     (let a = test_pk 1;
          (ok, store) = insert_all (map (\<lambda>i. test_entry a (''bearer-'' @ decimal i)) [0..<DEVICE_CAP]) default_inner;
          (ok', store') = member_insert (test_entry a ''bearer-newest'') store
      in ok \<and> session_count a store = DEVICE_CAP \<and> ok' \<and> session_count a store' = DEVICE_CAP \<and>
         \<not> contains_token ''bearer-0'' store' \<and> contains_token ''bearer-newest'' store' \<and>
         contains_token (''bearer-'' @ decimal (DEVICE_CAP - 1)) store')"

definition one_pubkeys_cap_does_not_touch_another :: bool where
  "one_pubkeys_cap_does_not_touch_another \<longleftrightarrow>
     (let a = test_pk 1; b = test_pk 2;
          (_, store) = insert_all (map (\<lambda>i. test_entry a (''a-'' @ decimal i)) [0..<DEVICE_CAP + 2]) default_inner;
          (_, store) = member_insert (test_entry b ''b-only'') store
      in session_count a store = DEVICE_CAP \<and> contains_token ''b-only'' store)"

definition revoke_drops_every_bearer_the_identity_holds :: bool where
  "revoke_drops_every_bearer_the_identity_holds \<longleftrightarrow>
     (let a = test_pk 1;
          (_, store) = insert_all [test_entry a ''device-1'', test_entry a ''device-2''] default_inner;
          (found, store) = revoke_by_member_hash (\<lambda>m. m) (replicate 32 7) store
      in found \<and> \<not> contains_token ''device-1'' store \<and> \<not> contains_token ''device-2'' store \<and> session_count a store = 0)"

definition lookup_by_token_reports_the_identity_behind_that_bearer :: bool where
  "lookup_by_token_reports_the_identity_behind_that_bearer \<longleftrightarrow>
     (let a = test_pk 1;
          (_, store) = insert_all [test_entry a ''device-1'', test_entry a ''device-2''] default_inner
      in case get_by_token ''device-2'' store of None \<Rightarrow> False
         | Some found \<Rightarrow> client_pubkey found = a \<and> session_token found = ''device-2'' \<and> member_hash found = replicate 32 7)"

lemma store_tests_pass:
  "a_second_enroll_on_one_pubkey_keeps_the_first_bearer" "bearers_are_capped_by_evicting_the_oldest"
  "one_pubkeys_cap_does_not_touch_another" "revoke_drops_every_bearer_the_identity_holds"
  "lookup_by_token_reports_the_identity_behind_that_bearer"
  by code_simp+

text \<open>All calls at one instant: the test relies on the refill over microseconds being negligible.\<close>

definition attestation_bucket_caps_the_burst_per_pubkey :: "instant \<Rightarrow> bool" where
  "attestation_bucket_caps_the_burst_per_pubkey now \<longleftrightarrow>
     (let (oks, store) = attest_run (test_pk 1) (replicate (nat \<lfloor>ATTEST_BURST\<rfloor>) now) default_inner;
          (again, store) = allow_attestation now (test_pk 1) store;
          (other, store) = allow_attestation now (test_pk 2) store
      in list_all (\<lambda>ok. ok) oks \<and> \<not> again \<and> other)"

lemma attest_run_snoc:
  "attest_run pk (nows @ [now]) s =
     (let (oks, s1) = attest_run pk nows s; (ok, s2) = allow_attestation now pk s1 in (oks @ [ok], s2))"
  by (simp add: attest_run_append Let_def case_prod_unfold)

lemma attest_run_other: "pk' \<noteq> pk \<Longrightarrow> hm_get (attest_buckets (snd (attest_run pk nows s))) pk' = hm_get (attest_buckets s) pk'"
  by (induction nows arbitrary: s) (simp_all add: Let_def case_prod_unfold allow_attestation_frame(4))

lemma attestation_bucket_caps_the_burst_per_pubkey_passes: "attestation_bucket_caps_the_burst_per_pubkey now"
proof -
  let ?s = "snd (attest_run (test_pk 1) (replicate 5 now) default_inner)"
  have keys: "test_pk 2 \<noteq> test_pk 1" by code_simp
  have fresh: "bucket_of now pk default_inner = (of_nat 5, now)" for pk
    by (simp add: bucket_of_def default_inner_def ATTEST_BURST_def)
  have five: "fst (attest_run (test_pk 1) (replicate 5 now) default_inner) = replicate 5 True"
    using attest_burst [OF fresh, of "test_pk 1" 5] by simp
  have "fst (attest_run (test_pk 1) (replicate 5 now @ [now]) default_inner) = replicate 5 True @ [False]"
    using attest_burst [OF fresh, of "test_pk 1" 6] by (simp add: numeral_eq_Suc)
  then have again: "\<not> fst (allow_attestation now (test_pk 1) ?s)"
    unfolding attest_run_snoc using five by (simp add: Let_def case_prod_unfold)
  have "bucket_of now (test_pk 2) (snd (allow_attestation now (test_pk 1) ?s)) = (of_nat 5, now)"
    using keys fresh [of "test_pk 2"] by (simp add: bucket_of_def allow_attestation_frame(4) attest_run_other)
  from attest_burst [OF this, of 1]
  have other: "fst (allow_attestation now (test_pk 2) (snd (allow_attestation now (test_pk 1) ?s)))"
    by (simp add: Let_def case_prod_unfold)
  have "nat \<lfloor>ATTEST_BURST\<rfloor> = 5" by (simp add: ATTEST_BURST_def)
  then show ?thesis
    using five again other by (simp add: attestation_bucket_caps_the_burst_per_pubkey_def Let_def case_prod_unfold list_all_iff)
qed

subsection \<open>\<^verbatim>\<open>attestation.rs\<close>\<close>

definition gpu_nonce_derivation_matches_ios_verifier :: "(bytes \<Rightarrow> bytes) \<Rightarrow> bool" where
  "gpu_nonce_derivation_matches_ios_verifier sha \<longleftrightarrow>
     (let nonce = test_nonce; spki = test_spki; spki_sha256 = sha spki in
      hex_encode spki_sha256 = ''f9939b4ac1207a11d218b07c9ade879cc82f76585f33be18df2a3c0f0f4dd29f'' \<and>
      hex_encode (derive_gpu_nonce sha nonce spki_sha256 0) = ''b31ac3402d6284dc6b63bc797d28a9b4107c05730cffd35f4234723ad50a539e'' \<and>
      hex_encode (derive_gpu_nonce sha nonce spki_sha256 1) = ''73325886c24473cee3e0929d85dd8fa696e49f964e87ae3bed7aa018251b5c06'' \<and>
      hex_encode (derive_gpu_nonce sha nonce spki_sha256 7) = ''0bf29014c0f9e6d29edb224b8ae32b85d88e87ac4bd60c19dfffc02d37b78b5f'')"

lemma gpu_nonce_derivation_matches_ios_verifier_passes: "gpu_nonce_derivation_matches_ios_verifier sha256_fips"
proof -
  have "hex_encode spki_digest = ''f9939b4ac1207a11d218b07c9ade879cc82f76585f33be18df2a3c0f0f4dd29f''" by code_simp
  then show ?thesis
    unfolding gpu_nonce_derivation_matches_ios_verifier_def Let_def sha256_spki using gpu_nonce_0 gpu_nonce_1 gpu_nonce_7 by blast
qed

definition b64_encode_matches_rfc4648_vectors :: bool where
  "b64_encode_matches_rfc4648_vectors \<longleftrightarrow>
     b64_encode (as_bytes []) = [] \<and>
     b64_encode (as_bytes ''f'') = ''Zg=='' \<and>
     b64_encode (as_bytes ''fo'') = ''Zm8='' \<and>
     b64_encode (as_bytes ''foo'') = ''Zm9v'' \<and>
     b64_encode (as_bytes ''foob'') = ''Zm9vYg=='' \<and>
     b64_encode (as_bytes ''fooba'') = ''Zm9vYmE='' \<and>
     b64_encode (as_bytes ''foobar'') = ''Zm9vYmFy''"

lemma b64_encode_matches_rfc4648_vectors_passes: "b64_encode_matches_rfc4648_vectors"
  by code_simp

definition test_pem :: "string \<Rightarrow> string" where
  "test_pem b64 = ''-----BEGIN CERTIFICATE-----'' @ [CHR 0x0a] @ b64 @ [CHR 0x0a] @ ''-----END CERTIFICATE-----'' @ [CHR 0x0a]"

definition pck_chain_lifts_pem_blocks_leaf_first :: bool where
  "pck_chain_lifts_pem_blocks_leaf_first \<longleftrightarrow>
     pck_chain_from_quote ([0x00, 0x01] @ as_bytes (''binary-prefix'' @ test_pem ''QQ=='' @ test_pem ''Qg=='')) = [[0x41], [0x42]]"

definition pck_chain_of_a_quote_without_pem_is_empty :: bool where
  "pck_chain_of_a_quote_without_pem_is_empty \<longleftrightarrow> pck_chain_from_quote (replicate 128 0) = []"

lemma pck_chain_tests_pass:
  "pck_chain_lifts_pem_blocks_leaf_first" "pck_chain_of_a_quote_without_pem_is_empty"
  by code_simp+

end
