(* ===== verification/Spec2Isabelle.thy ===== *)
theory Spec2Isabelle
  imports Instance_Streams Quote_Tasks GPU_Helper Store_Lock Unit_Tests
begin

text \<open>
  A verification library for the IronServer Instance, the service that fronts a model backend inside a
  confidential VM (Rust, \<^verbatim>\<open>src/src\<close>). It terminates mutual TLS for a fixed cohort of members, attests its hardware,
  enrols members against Apple credentials, proxies chat requests under short-lived bearers and
  accepts signed management actions. Everything it knows is in memory.

  \<^bold>\<open>Parts of the program and the theories that model them.\<close>

  \<^item> \<^verbatim>\<open>lib.rs\<close>: \<^verbatim>\<open>Hex_Codec\<close>, \<^verbatim>\<open>Base64_Codec\<close>, \<^verbatim>\<open>Sha1_Digest\<close>, \<^verbatim>\<open>Uuid_V5\<close>. One definition per function, the loops as
    recursions over the same accumulators, words at their Rust width. Shown: decoding inverts encoding and
    accepts exactly the stated inputs; SHA-1 equals a FIPS 180-4 reference; the UUID comparison of /enroll
    accepts exactly the spellings of the derived UUID. The route table \<^verbatim>\<open>build_router\<close> is in \<^verbatim>\<open>Instance_System\<close>,
    \<^verbatim>\<open>random_32\<close> in \<^verbatim>\<open>App_State\<close>.
  \<^item> \<^verbatim>\<open>state.rs\<close>: \<^verbatim>\<open>Member_Store\<close> (the store's record and operations, on \<^verbatim>\<open>Hash_Map\<close>), \<^verbatim>\<open>Attest_Bucket\<close> (the rate
    limit, on the binary64 arithmetic of \<^verbatim>\<open>F64\<close>), \<^verbatim>\<open>Store_Machine\<close> (executions as interleavings of
    atomic calls), \<^verbatim>\<open>Store_Lock\<close> (the lock and its recovery from poisoning), \<^verbatim>\<open>App_State\<close> (anchors, boot context, application state). Shown: the two indexes agree in
    every reachable state, every trace of calls and answers of the store is one of a table of device slots, enrolling evicts only the
    oldest bearer of the same key, revoking drops exactly one key's bearers, nonces are accepted once, a cut
    bearer stays cut, and the bucket's burst, liveness and rate including the rounding error and clock readings that reach
    the lock out of order.
  \<^item> \<^verbatim>\<open>manifest.rs\<close>: \<^verbatim>\<open>Cohort_Manifest\<close>. The two membership checks read the manifest as bytes.
  \<^item> \<^verbatim>\<open>apple_jwks.rs\<close>: \<^verbatim>\<open>Apple_Jwks\<close>, on the interface \<^verbatim>\<open>Jwt_Interface\<close> of the JWT crate.
  \<^item> \<^verbatim>\<open>enroll.rs\<close>: \<^verbatim>\<open>Storekit\<close> (\<^verbatim>\<open>verify_storekit_jws\<close> against a declarative chain policy) and \<^verbatim>\<open>Enroll\<close> (the handler: the
    policy it enforces, its effect, every error).
  \<^item> \<^verbatim>\<open>manage.rs\<close>: \<^verbatim>\<open>Manage\<close>. Signed actions only, no replay, the effect of a revoke.
  \<^item> \<^verbatim>\<open>chat.rs\<close>: \<^verbatim>\<open>Chat\<close>. The handler and the relay task, which sees a store that other requests change
    between its checks. \<^verbatim>\<open>Chat_Stream\<close> splits that task into its atomic steps, with the channel of 16 frames between it and
    the client and the frames arriving from the backend: every schedule computes what the sequential relay does, a revocation lets at most 18 more
    frames through, and the task is only ever blocked by the backend (no frame has arrived) or by the client (full channel), and woken by either.
  \<^item> \<^verbatim>\<open>attestation.rs\<close>: \<^verbatim>\<open>Pem_Scan\<close> (certificates out of a quote, through lossy UTF-8) and \<^verbatim>\<open>Attestation\<close> (rate limit,
    quote, GPU challenges, envelope). \<^verbatim>\<open>Quote_Tasks\<close> runs the blocking tasks of concurrent requests against the kernel's report
    entries, one file operation at a time: no request gets another's quote, and only entries whose removal failed are left behind.
  \<^item> \<^verbatim>\<open>src/nix/gpu-report.py\<close>, the process behind the GPU reports: \<^verbatim>\<open>GPU_Helper\<close>. Service and helper together return the reports of all GPUs
    of a board in the confidential mode, each on its own challenge, or nothing; the helper's PEM reader inverts PEM.
  \<^item> \<^verbatim>\<open>mtls.rs\<close>: \<^verbatim>\<open>Mtls\<close>. The handshake gate and the request extension.
  \<^item> \<^verbatim>\<open>main.rs\<close>: \<^verbatim>\<open>Instance_Boot\<close>. What is set up and printed before serving, and how the process can end.
  \<^item> The handlers on one store: \<^verbatim>\<open>Instance_System\<close>, a step relation whose steps are the handlers' atomic store
    accesses (/manage in two), with the invariant that every live bearer is a line of the manifest.
  \<^item> The whole path of a message: \<^verbatim>\<open>Instance_Server\<close>, from the booted configuration over an accepted connection and the
    router to the handler. Its steps are executions of \<^verbatim>\<open>Instance_System\<close>; what the handshake guarantees of
    the client's key gives the types and the size of the state, and that the backend works for members only.
  \<^item> The serving process with its running streams: \<^verbatim>\<open>Instance_Streams\<close>. Messages, relay tasks, backend and clients interleave on one
    store; each stream behaves as in \<^verbatim>\<open>Chat_Stream\<close>. Clients receive only data checked against a member's bearer, and a signed revoke
    that the router dispatched silences every stream of the member.
  \<^item> This theory: the sequential form of the revocation property, and what an attestation means to the client end to end, over boot, the
    concurrent requests, the kernel's report entries and the GPU helper.
  \<^item> The unit tests of the three files that have them: \<^verbatim>\<open>Unit_Tests\<close>, with the digest evaluations in \<^verbatim>\<open>Sha1_Vectors\<close>
    and \<^verbatim>\<open>Sha256_Vectors\<close> (SHA-256 after FIPS 180-4, an instance of the crate's digest). Each test is replayed on the definitions above and passes.

  \<^bold>\<open>How the model follows the code.\<close> Structs are records with the source's fields, enums are datatypes, handlers
  take the application state and return the response with the state after it, \<^verbatim>\<open>Result\<close> and \<^verbatim>\<open>Option\<close> are sums and
  options, \<^verbatim>\<open>expect\<close> and \<^verbatim>\<open>unwrap\<close> are the \<open>Panic\<close> outcome. A \<^verbatim>\<open>str\<close> is its UTF-8 bytes. Instants are
  nanoseconds on the monotonic clock. A \<^verbatim>\<open>HashMap\<close> is an association list with distinct keys and an iteration order that
  is a parameter. No loop of the code needs fuel: every one has a termination proof (the bound 5 of \<open>quote_alone\<close> is the number of operations of a quote, and the lemma \<open>quote_alone_tdx_quote\<close> shows it is enough).

  \<^bold>\<open>Interfaces.\<close> \<open>hash_map_adt\<close> (interpreted by the association lists), \<open>base64_alphabet\<close> (by both alphabets),
  \<open>bearer_table\<close> (what handlers rely on of the store; interpreted by the store's calls) and
  \<open>invariant_system\<close> (by the store, by the running instance, by the serving process and by the concurrent quote tasks) and
  \<open>refined_system\<close>, labelled refinement (by the store's calls over the device slots).

  \<^bold>\<open>Parameters.\<close> The crates (\<^verbatim>\<open>jsonwebtoken\<close>, \<^verbatim>\<open>x509-parser\<close>, \<^verbatim>\<open>p256\<close>, \<^verbatim>\<open>sha2\<close>, \<^verbatim>\<open>rustls\<close>, \<^verbatim>\<open>hyper\<close>, \<^verbatim>\<open>serde_json\<close>), the kernel's configfs, the GPU
  helper process seen from the service, NVML, \<^verbatim>\<open>argparse\<close> and \<^verbatim>\<open>json.dump\<close> seen from the helper, the environment, the random generator and the pinned data files. The hypotheses about them are named:
  \<open>jwt_sound\<close>, \<open>mandatory_client_auth\<close>, \<open>configfs_tsm\<close>, \<open>argparse_append\<close>, \<open>json_roundtrip\<close>, \<open>iteration_of\<close>, \<open>ulower_not_hex\<close>, freshness of
  random bearers (\<open>admissible\<close>, \<open>fresh_random\<close>, \<open>call_ok\<close>), 32-byte digests (\<open>digest_32\<close>). Each is shown satisfiable by a concrete instance where a property uses it.

  \<^bold>\<open>Not modelled.\<close> The async runtime, HTTP parsing and JSON extraction by axum (a parameter, \<open>axum_lib\<close>; handlers receive the parsed request),
  the pooled HTTP client and the \<^verbatim>\<open>poll_ready\<close> delegation (handles without state of the program), the
  integration tests, the image build (the other files of \<^verbatim>\<open>src/nix\<close>: configuration and shell), and timing.
\<close>

section \<open>Revocation across components\<close>

text \<open>
  A revocation takes effect everywhere. After the orchestrator's signed revoke for a member hash held by one
  key has been answered, and whatever store calls follow, as long as none of them mints the same token
  again: a chat request with a bearer of that member is refused with 401 and forwards nothing, and a
  stream that is running for it sends none of the backend's next data frame; it ends with
  the revocation frame if the client still listens.
\<close>

theorem revoke_silences_member:
  assumes it: "iteration_of iter" and inv: "store_inv (members st)"
    and signed: "orchestrator_signed libs (orch_manage_pubkey (trust st)) env a" "nonce a \<notin> seen_nonces (members st)"
    and rev: "action a = ''revoke''" "revoke_target a = Some h"
    and was: "get_by_token t (members st) = Some e" "member_hash e = h"
    and unique: "\<And>pk pk' m m'. hm_get (by_pubkey (members st)) pk = Some m \<Longrightarrow>
      hm_get (by_pubkey (members st)) pk' = Some m' \<Longrightarrow> stored_hash m = h \<Longrightarrow> stored_hash m' = h \<Longrightarrow> pk = pk'"
    and later: "st1 = snd (manage_handler libs iter st env)"
      "run_ok (store_allowed iter) (store_exec iter) (members st1) ops" "\<forall>op \<in> set ops. mints op \<noteq> Some t"
      "st2 = st1\<lparr>members := fold (store_exec iter) ops (members st1)\<rparr>"
    and use: "bearer lib headers = Some t" "store_at_check ev = members st2" "frame ev = Data d"
  shows "chat_handler lib st2 headers b = reject UNAUTHORIZED ''invalid bearer'' None \<and>
    relay t (ev # evs) = (if client_listens ev then [REVOKED_FRAME] else [], Cut)"
proof -
  have wf: "store_wf (members st)" using inv by (simp add: store_inv_def)
  have "\<not> contains_token t (members st1)"
    unfolding later(1) using revoked_token_gone [OF it wf signed rev was] unique by blast
  moreover have "store_inv (members st1)" unfolding later(1) using manage_inv [OF it inv] .
  ultimately have "\<not> contains_token t (members st2)"
    using bearers.cut_stays_cut [of "members st1" iter ops t] later by simp
  then show ?thesis using use by (simp add: chat_handler_def)
qed

definition demo_http :: http_lib where
  "demo_http = \<lparr>header_to_str = (\<lambda>_. Some ''Bearer a''), request_build = Some, send_request = (\<lambda>_. Some 200),
     is_success = (\<lambda>_. True), status_from_u16 = (\<lambda>_. None), response_build = True, IRON_VLLM_URL = None\<rparr>"

theorem revoke_silences_member_witness:
  "chat_handler demo_http (snd (manage_handler demo_manage_libs (\<lambda>m. m) manage_state demo_envelope)) (\<lambda>_. Some []) [1]
    = reject UNAUTHORIZED ''invalid bearer'' None"
proof -
  let ?st1 = "snd (manage_handler demo_manage_libs (\<lambda>m. m) manage_state demo_envelope)"
  let ?ev = "\<lparr>frame = Data [1], store_at_check = members ?st1, client_listens = True\<rparr>"
  have wf: "store_wf (members manage_state)" using manage_state_inv by (simp add: store_inv_def)
  have fresh: "nonce demo_action \<notin> seen_nonces (members manage_state)"
    by (simp add: manage_state_def member_insert_frame default_inner_def)
  have rev: "action demo_action = ''revoke''" "revoke_target demo_action = Some demo_hash"
    by (simp_all add: demo_action_def revoke_target_def hex_decode_encode) (simp add: demo_hash_def)
  have hash: "member_hash manage_entry = demo_hash" by (simp add: manage_entry_def)
  have bear: "bearer demo_http (\<lambda>_. Some []) = Some ''a''"
    by (simp add: bearer_def demo_http_def strip_prefix_def)
  have "chat_handler demo_http ?st1 (\<lambda>_. Some []) [1] = reject UNAUTHORIZED ''invalid bearer'' None \<and>
    relay ''a'' [?ev] = (if client_listens ?ev then [REVOKED_FRAME] else [], Cut)"
  proof (rule revoke_silences_member [OF iteration_id manage_state_inv demo_signed fresh rev manage_state_entry hash _ refl _ _ _ bear, where ops = "[]"])
    show "pk = pk'" if "hm_get (by_pubkey (members manage_state)) pk = Some m" "hm_get (by_pubkey (members manage_state)) pk' = Some m'"
      for pk pk' m m'
      using that by (simp add: manage_state_keys)
  qed simp_all
  then show ?thesis ..
qed

section \<open>Attestation across components\<close>

text \<open>
  C2: what a client can rely on when it gets an attestation. A booted process serves any number of /attestation requests at once (up to
  \<open>2 ^ 64\<close> in its life), their file operations interleaved in any way, with the GPU helper as the program it runs. Whenever a request is answered with an
  envelope, that envelope decodes to a TDX quote over this request's own nonce and the hash of the key pair the process serves TLS with,
  and to the reports of all eight GPUs of a board in the confidential mode, device by device on the challenge derived from the same nonce, the same
  key and the slot.
\<close>

theorem attestation_end_to_end:
  assumes boot: "main_boot b = Return r"
    and queries: "list_all2 (\<lambda>q nonce. attest_challenge q = Inr nonce) qs nonces" "length qs \<le> 2 ^ 64"
    and tsm: "configfs_tsm (attest_fs libs) view quoted"
    and helper: "runs_helper py nv (attest_gpu libs)" "argparse_append py" "json_roundtrip py (attest_gpu libs)"
    and sha: "\<And>m. length (attest_sha256 libs m) = 32"
    and run: "reachable (quote_world_start seq f (map (\<lambda>n. n @ spki_sha256 (boot (boot_state r))) nonces))
      (quote_step (attest_fs libs) (process_id libs)) w"
    and fin: "i < length qs" "snd (quote_tasks w ! i) = Quote_Done k res left"
    and reply: "attest_reply libs (spki_sha256 (boot (boot_state r))) (nonces ! i) res = ok_json e"
  shows "\<exists>kp nonce quote gpus. generate_key b = Some kp \<and> private_key (boot_config r) = serialize_der kp \<and>
    (\<exists>h. qs ! i = Some h \<and> hex_decode h = Some nonce) \<and> length nonce = 32 \<and>
    quoted (nonce @ boot_sha256 b (subject_public_key_info kp)) quote \<and>
    board_attests py nv (map (\<lambda>g. attest_sha256 libs (nonce @ boot_sha256 b (subject_public_key_info kp) @ [word_of_nat g])) [0..<8]) gpus \<and>
    envelope_decodes e quote (pck_chain_from_quote quote) gpus"
proof -
  let ?spki = "spki_sha256 (boot (boot_state r))" let ?n = "nonces ! i"
  obtain kp where kp: "generate_key b = Some kp" "private_key (boot_config r) = serialize_der kp"
      "?spki = boot_sha256 b (subject_public_key_info kp)"
  proof (rule main_boot_Return [OF boot])
    fix kp cert
    assume "generate_key b = Some kp" "boot (boot_state r) = \<lparr>spki_sha256 = boot_sha256 b (subject_public_key_info kp)\<rparr>"
      and cfg: "make_server_config (boot_tls b) (cohort (boot_state r)) cert (serialize_der kp) = Some (boot_config r)"
    then show thesis using that [of kp] make_server_config_Some(2) [OF cfg] by simp
  qed
  have len: "length qs = length nonces" using queries(1) by (rule list_all2_lengthD)
  have "attest_challenge (qs ! i) = Inr ?n" using list_all2_nthD [OF queries(1) fin(1)] .
  then have n: "\<exists>h. qs ! i = Some h \<and> hex_decode h = Some ?n" "length ?n = 32"
    by (auto simp: attest_challenge_def split: option.splits if_splits)
  obtain quote gpus where r: "res = Some quote" "gpu_reports_all (attest_gpu libs) (gpu_nonces (attest_sha256 libs) ?n ?spki) = Some gpus"
      "e = build_envelope quote (pck_chain_from_quote quote) gpus"
    using reply unfolding attest_reply_ok by blast
  have "quoted (?n @ ?spki) quote"
    using finished_quote [OF tsm _ run, of i k quote left] queries(2) len fin r(1) by simp
  moreover have "gpu_nonces (attest_sha256 libs) ?n ?spki \<noteq> []" "list_all (\<lambda>n. length n = NONCE_LEN) (gpu_nonces (attest_sha256 libs) ?n ?spki)"
    using sha by (auto simp: gpu_nonces_def derive_gpu_nonce_def list_all_iff NONCE_LEN_def) (simp add: EXPECTED_GPU_COUNT_def)
  from gpu_reports_board [OF helper this] r(2)
  have "board_attests py nv (gpu_nonces (attest_sha256 libs) ?n ?spki) gpus" by blast
  moreover have "envelope_decodes e quote (pck_chain_from_quote quote) gpus" unfolding r(3) by (rule build_envelope_decodes)
  moreover have "gpu_nonces (attest_sha256 libs) ?n ?spki = map (\<lambda>g. attest_sha256 libs (?n @ ?spki @ [word_of_nat g])) [0..<8]"
    by (simp only: gpu_nonces_def derive_gpu_nonce_def EXPECTED_GPU_COUNT_def)
  ultimately show ?thesis using kp n by metis
qed

text \<open>Eight GPUs, the helper of \<^verbatim>\<open>GPU_Helper\<close> and the report interface of \<^verbatim>\<open>Quote_Tasks\<close>; the digest is a constant.\<close>

definition board_nvml :: "nat nvml" where
  "board_nvml = demo_nvml\<lparr>nvmlDeviceGetCount := Some 8\<rparr>"

definition board_helper :: gpu_lib where
  "board_helper = demo_helper\<lparr>command_output := (\<lambda>cmd args. Some (fst (helper_main demo_py board_nvml args) = 0, snd (helper_main demo_py board_nvml args)))\<rparr>"

definition board_libs :: "(string \<Rightarrow> bytes option option) attest_libs" where
  "board_libs = \<lparr>attest_fs = tsm_fs, attest_gpu = board_helper, attest_sha256 = (\<lambda>_. replicate 32 7), process_id = 7\<rparr>"

definition board_nonce :: bytes where "board_nonce = replicate 32 1"

lemma board_reports: "board_attests demo_py board_nvml (replicate 8 (replicate 32 7)) (replicate 8 ([9, 7], [[1, 2, 3]]))"
proof -
  have "device_attests demo_py board_nvml i (replicate 32 7) ([9, 7], [[1, 2, 3]])" for i
    using demo_chain
    by (simp add: device_attests_def board_nvml_def demo_nvml_def PEM_BEGIN_def PEM_END_def demo_py_def)
  then show ?thesis
    by (simp add: board_attests_def board_nvml_def demo_nvml_def multi_gpu_mode_def NVML_CC_SYSTEM_MULTIGPU_NVLE_def)
qed

lemma board_hyps: "runs_helper demo_py board_nvml (attest_gpu board_libs)" "json_roundtrip demo_py (attest_gpu board_libs)"
  using demo_json by (simp_all add: runs_helper_def board_libs_def board_helper_def json_roundtrip_def)

lemma board_sha: "length (attest_sha256 board_libs m) = 32"
  by (simp add: board_libs_def)

definition board_run :: "(string \<Rightarrow> bytes option option) quote_world" where
  "board_run = fold (quote_move tsm_fs 7) [0, 0, 0, 0, 0] (quote_world_start 0 (\<lambda>_. None) [board_nonce @ [1]])"

lemma board_run_done: "quote_tasks board_run = [(board_nonce @ [1], Quote_Done 0 (Some (81 # board_nonce @ [1])) False)]"
  by code_simp

lemma board_reply:
  "attest_reply board_libs [1] board_nonce (Some (81 # board_nonce @ [1])) =
     ok_json (build_envelope (81 # board_nonce @ [1]) (pck_chain_from_quote (81 # board_nonce @ [1])) (replicate 8 ([9, 7], [[1, 2, 3]])))"
proof -
  have "gpu_nonces (attest_sha256 board_libs) board_nonce [1] = replicate 8 (replicate 32 7)"
    by (simp add: gpu_nonces_def derive_gpu_nonce_def EXPECTED_GPU_COUNT_def board_libs_def map_replicate_const)
  moreover have "gpu_reports_all (attest_gpu board_libs) (replicate 8 (replicate 32 7)) = Some (replicate 8 ([9, 7], [[1, 2, 3]]))"
  proof (rule gpu_reports_board [OF board_hyps(1) demo_append board_hyps(2), THEN iffD2])
    show "replicate 8 (replicate 32 7) \<noteq> ([] :: bytes list)" by simp
    show "list_all (\<lambda>n. length n = NONCE_LEN) (replicate 8 (replicate 32 (7 :: u8)))" by (simp add: list_all_iff NONCE_LEN_def)
  qed (rule board_reports)
  ultimately show ?thesis by (simp add: attest_reply_def)
qed

theorem attestation_end_to_end_witness:
  "\<exists>r e. main_boot demo_boot = Return r \<and>
     attest_reply board_libs (spki_sha256 (boot (boot_state r))) board_nonce (Some (81 # board_nonce @ [1])) = ok_json e \<and>
     (\<exists>quote gpus. quote = 81 # board_nonce @ [1] \<and> length gpus = 8 \<and> envelope_decodes e quote (pck_chain_from_quote quote) gpus)"
proof -
  obtain r where r: "main_boot demo_boot = Return r" "spki_sha256 (boot (boot_state r)) = [1]"
    by (simp add: main_boot_def demo_boot_def load_manifest_def make_anchors_def load_apple_jwt_keys_def
        make_server_config_def demo_tls_def Let_def)
  have tsm: "configfs_tsm (attest_fs board_libs) (\<lambda>f. f) (\<lambda>b q. q = 81 # b)" using tsm_fs_ok by (simp add: board_libs_def)
  have q: "list_all2 (\<lambda>q nonce. attest_challenge q = Inr nonce) [Some (hex_encode board_nonce)] [board_nonce]"
    by (simp add: attest_challenge_def) (simp add: board_nonce_def)
  have run: "reachable (quote_world_start 0 (\<lambda>_. None) (map (\<lambda>n. n @ spki_sha256 (boot (boot_state r))) [board_nonce]))
      (quote_step (attest_fs board_libs) (process_id board_libs)) board_run"
    using schedule_reachable [of "quote_world_start 0 (\<lambda>_. None) [board_nonce @ [1]]" tsm_fs 7 "[0, 0, 0, 0, 0]", folded board_run_def]
    by (simp add: r(2) board_libs_def)
  have fin: "snd (quote_tasks board_run ! 0) = Quote_Done 0 (Some (81 # board_nonce @ [1])) False" by (simp add: board_run_done)
  let ?e = "build_envelope (81 # board_nonce @ [1]) (pck_chain_from_quote (81 # board_nonce @ [1])) (replicate 8 ([9, 7], [[1, 2, 3]]))"
  have reply: "attest_reply board_libs (spki_sha256 (boot (boot_state r))) ([board_nonce] ! 0) (Some (81 # board_nonce @ [1])) = ok_json ?e"
    using board_reply by (simp add: r(2))
  have "length [Some (hex_encode board_nonce)] \<le> 2 ^ 64" "0 < length [Some (hex_encode board_nonce)]" by simp_all
  note attestation_end_to_end [OF r(1) q this(1) tsm board_hyps(1) demo_append board_hyps(2) board_sha run this(2) fin reply]
  then obtain quote gpus where "quote = 81 # board_nonce @ [1]" "length gpus = 8"
      "envelope_decodes ?e quote (pck_chain_from_quote quote) gpus"
    by (auto simp: board_attests_def demo_boot_def)
  then show ?thesis using r reply by auto
qed

end
